theory Spec2Isabelle
  imports
    Main
    "HOL-Library.Char_ord"
    "HOL-Library.List_Lexorder"
    "HOL-Library.Multiset"
    "HOL-Library.Word"
begin

section \<open>The digest store as the readers of \<open>src/lib/digest.ts\<close> see it\<close>

text \<open>
  Text values are kept as SQLite keeps them: a \<open>string\<close> is the list of the bytes of
  the UTF-8 encoding, and the order on it (\<open>List_Lexorder\<close> over \<open>Char_ord\<close>) is the
  byte-wise order of SQLite's default \<open>BINARY\<close> collation, a shorter prefix first.
  Row identifiers, foreign keys and \<open>release_id\<close> are SQLite integers (64 bits, signed),
  taken as \<open>int\<close>; in a stored row they are exact, in an object that JavaScript holds
  they are the numbers \<open>better-sqlite3\<close> makes of them (\<open>js_number\<close> below). A column
  that the code guards with \<open>||\<close> may hold \<open>NULL\<close> and is an \<open>option\<close>; so is
  \<open>ministry\<close>, declared \<open>string | null\<close>.

  Fields carry a prefix naming their table, since the fields of all records share one
  name space: \<open>dd\<close> \<open>daily_digest\<close>, \<open>cd\<close> \<open>country_digest\<close>, \<open>rs\<close>
  \<open>release_summary\<close>, \<open>wd\<close> \<open>weekly_digest\<close>, \<open>wc\<close> \<open>weekly_country_digest\<close>.
\<close>

record ReleaseSummary =
  rs_id :: int
  rs_country_digest_id :: int
  rs_release_id :: int
  rs_title :: string
  rs_summary :: string
  rs_original_url :: string
  rs_ministry :: "string option"

text \<open>A row of \<open>country_digest\<close>, as \<open>SELECT *\<close> returns it.\<close>

record country_digest_row =
  cd_id :: int
  cd_daily_digest_id :: int
  cd_country_code :: string
  cd_country_name :: string
  cd_title :: "string option"
  cd_summary :: string

record CountryDigest =
  id_c :: int
  country_code :: string
  country_name :: string
  title :: string
  summary :: string
  releases :: "ReleaseSummary list"

record DailyDigest =
  dd_id :: int
  dd_date :: string
  dd_global_title :: "string option"
  dd_global_summary :: string
  dd_created_at :: string

record DigestPage =
  digest :: DailyDigest
  countries :: "CountryDigest list"

record weekly_country_digest_row =
  wc_id :: int
  wc_weekly_digest_id :: int
  wc_country_code :: string
  wc_country_name :: string
  wc_title :: "string option"
  wc_summary :: string

record WeeklyCountryDigest =
  id_w :: int
  w_country_code :: string
  w_country_name :: string
  w_title :: string
  w_summary :: string

record WeeklyDigest =
  wd_id :: int
  wd_week_start :: string
  wd_week_end :: string
  wd_global_title :: "string option"
  wd_global_summary :: string
  wd_created_at :: string

record WeeklyPage =
  w_digest :: WeeklyDigest
  w_countries :: "WeeklyCountryDigest list"

text \<open>
  The database file: each table is the list of its rows in the order a table scan
  visits them.
\<close>

record database =
  daily_digest :: "DailyDigest list"
  country_digest :: "country_digest_row list"
  release_summary :: "ReleaseSummary list"
  weekly_digest :: "WeeklyDigest list"
  weekly_country_digest :: "weekly_country_digest_row list"

text \<open>
  \<open>better-sqlite3\<close> hands an integer column to JavaScript as a number, a double: an
  integer of magnitude up to \<open>2^53\<close> stays as it is, a larger one is rounded to the nearest
  double, a tie going to the even significand. \<open>double_spacing a\<close> is the distance between
  neighbouring doubles at the magnitude \<open>a\<close>.
\<close>

function double_spacing :: "nat \<Rightarrow> nat" where
  "double_spacing a = (if a < 2 ^ 53 then 1 else 2 * double_spacing (a div 2))"
  by pat_completeness auto
termination
  by (relation "measure id") auto

declare double_spacing.simps [simp del]

definition round_to_double :: "nat \<Rightarrow> nat" where
  "round_to_double a =
     (let u = double_spacing a; q = a div u; r = a mod u
      in if 2 * r < u \<or> (2 * r = u \<and> even q) then q * u else (q + 1) * u)"

definition js_number :: "int \<Rightarrow> int" where
  "js_number x =
     (if x < 0 then - int (round_to_double (nat (- x))) else int (round_to_double (nat x)))"

text \<open>
  The object that \<open>.get()\<close> or \<open>.all()\<close> returns for a stored row: the texts as they
  are, every integer column as a JavaScript number.
\<close>

definition js_daily :: "DailyDigest \<Rightarrow> DailyDigest" where
  "js_daily r = r\<lparr>dd_id := js_number (dd_id r)\<rparr>"

definition js_country :: "country_digest_row \<Rightarrow> country_digest_row" where
  "js_country c =
     c\<lparr>cd_id := js_number (cd_id c), cd_daily_digest_id := js_number (cd_daily_digest_id c)\<rparr>"

definition js_release :: "ReleaseSummary \<Rightarrow> ReleaseSummary" where
  "js_release r =
     r\<lparr>rs_id := js_number (rs_id r),
       rs_country_digest_id := js_number (rs_country_digest_id r),
       rs_release_id := js_number (rs_release_id r)\<rparr>"

definition js_weekly :: "WeeklyDigest \<Rightarrow> WeeklyDigest" where
  "js_weekly r = r\<lparr>wd_id := js_number (wd_id r)\<rparr>"

definition js_weekly_country :: "weekly_country_digest_row \<Rightarrow> weekly_country_digest_row" where
  "js_weekly_country c =
     c\<lparr>wc_id := js_number (wc_id c), wc_weekly_digest_id := js_number (wc_weekly_digest_id c)\<rparr>"

text \<open>
  A connection of \<open>better-sqlite3\<close>: the file it is opened on and the \<open>readonly\<close>
  option. \<open>getDb\<close> opens the file read-only; \<open>close\<close> gives the file back as the
  connection leaves it.
\<close>

record connection =
  store :: database
  readonly :: bool

definition getDb :: "database \<Rightarrow> connection" where
  "getDb file = \<lparr>store = file, readonly = True\<rparr>"

definition close :: "connection \<Rightarrow> database" where
  "close db = store db"

text \<open>
  A prepared \<open>SELECT\<close> is the function from the stored tables to its result rows; a
  bound parameter is a JavaScript number and is compared with the stored integer by
  value. \<open>.all()\<close> returns every row, \<open>.get()\<close> the first one or \<open>undefined\<close>, each
  row as the object \<open>js\<close> makes of it; both hand the connection on.
\<close>

definition stmt_all ::
  "('r \<Rightarrow> 'o) \<Rightarrow> (database \<Rightarrow> 'r list) \<Rightarrow> connection \<Rightarrow> 'o list \<times> connection" where
  "stmt_all js q db = (map js (q (store db)), db)"

definition stmt_get ::
  "('r \<Rightarrow> 'o) \<Rightarrow> (database \<Rightarrow> 'r list) \<Rightarrow> connection \<Rightarrow> 'o option \<times> connection" where
  "stmt_get js q db = (case q (store db) of [] \<Rightarrow> None | r # _ \<Rightarrow> Some (js r), db)"

text \<open>
  \<open>ORDER BY k\<close> sorts by the key, \<open>ORDER BY k DESC\<close> in descending order. SQL leaves
  the order of rows with equal keys to the engine, which takes it from the plan of the
  query; both sorts here keep such rows in the order in which the rows reach them. No
  property below says where rows with equal keys go, and with \<open>date\<close> and \<open>week_end\<close>
  unique, as the persisted schema has them, no two rows of the descending queries have
  equal keys.
\<close>

definition order_by :: "('r \<Rightarrow> 'k::linorder) \<Rightarrow> 'r list \<Rightarrow> 'r list" where
  "order_by k rows = sort_key k rows"

definition order_by_desc :: "('r \<Rightarrow> 'k::linorder) \<Rightarrow> 'r list \<Rightarrow> 'r list" where
  "order_by_desc k rows = rev (sort_key k (rev rows))"

text \<open>\<open>SELECT * FROM daily_digest ORDER BY date DESC LIMIT 1\<close>\<close>

definition sql_latest_daily :: "database \<Rightarrow> DailyDigest list" where
  "sql_latest_daily s = take 1 (order_by_desc dd_date (daily_digest s))"

text \<open>\<open>SELECT * FROM daily_digest WHERE date = ?\<close>\<close>

definition sql_daily_by_date :: "string \<Rightarrow> database \<Rightarrow> DailyDigest list" where
  "sql_daily_by_date d s = filter (\<lambda>r. dd_date r = d) (daily_digest s)"

text \<open>\<open>SELECT date FROM daily_digest ORDER BY date DESC\<close>\<close>

definition sql_all_daily :: "database \<Rightarrow> DailyDigest list" where
  "sql_all_daily s = order_by_desc dd_date (daily_digest s)"

text \<open>\<open>SELECT * FROM weekly_digest WHERE week_end = ?\<close>\<close>

definition sql_weekly_by_end :: "string \<Rightarrow> database \<Rightarrow> WeeklyDigest list" where
  "sql_weekly_by_end w s = filter (\<lambda>r. wd_week_end r = w) (weekly_digest s)"

text \<open>\<open>SELECT week_end FROM weekly_digest ORDER BY week_end DESC\<close>\<close>

definition sql_all_weekly :: "database \<Rightarrow> WeeklyDigest list" where
  "sql_all_weekly s = order_by_desc wd_week_end (weekly_digest s)"

text \<open>
  \<open>SELECT * FROM country_digest WHERE daily_digest_id = ? ORDER BY country_name\<close>. The
  rows of one digest are found through the index of the unique key
  \<open>(daily_digest_id, country_code)\<close> of the persisted schema and so reach the sort in
  order of \<open>country_code\<close>.
\<close>

definition sql_country_digest :: "int \<Rightarrow> database \<Rightarrow> country_digest_row list" where
  "sql_country_digest i s =
     order_by cd_country_name
       (order_by cd_country_code (filter (\<lambda>c. cd_daily_digest_id c = i) (country_digest s)))"

text \<open>\<open>SELECT * FROM release_summary WHERE country_digest_id = ? ORDER BY id\<close>\<close>

definition sql_release_summary :: "int \<Rightarrow> database \<Rightarrow> ReleaseSummary list" where
  "sql_release_summary i s =
     order_by rs_id (filter (\<lambda>r. rs_country_digest_id r = i) (release_summary s))"

text \<open>
  \<open>SELECT * FROM weekly_country_digest WHERE weekly_digest_id = ? ORDER BY country_name\<close>
\<close>

definition sql_weekly_country_digest :: "int \<Rightarrow> database \<Rightarrow> weekly_country_digest_row list" where
  "sql_weekly_country_digest i s =
     order_by wc_country_name (filter (\<lambda>c. wc_weekly_digest_id c = i) (weekly_country_digest s))"

text \<open>\<open>x || ""\<close> on a nullable text: \<open>null\<close> and the empty string both give \<open>""\<close>.\<close>

definition or_empty :: "string option \<Rightarrow> string" where
  "or_empty t = (case t of None \<Rightarrow> [] | Some x \<Rightarrow> (if x = [] then [] else x))"

text \<open>
  \<open>countryRows.map(...)\<close> with a callback that queries the connection: the rows are
  visited left to right and the connection is threaded through the calls.
\<close>

fun map_db :: "('a \<Rightarrow> connection \<Rightarrow> 'b \<times> connection) \<Rightarrow> 'a list \<Rightarrow> connection \<Rightarrow> 'b list \<times> connection" where
  "map_db f [] db = ([], db)"
| "map_db f (x # xs) db =
     (let (y, db1) = f x db; (ys, db2) = map_db f xs db1 in (y # ys, db2))"

definition country_with_releases :: "country_digest_row \<Rightarrow> connection \<Rightarrow> CountryDigest \<times> connection" where
  "country_with_releases c db =
     (let (rels, db1) = stmt_all js_release (sql_release_summary (cd_id c)) db
      in (\<lparr>id_c = cd_id c,
           country_code = cd_country_code c,
           country_name = cd_country_name c,
           title = or_empty (cd_title c),
           summary = cd_summary c,
           releases = rels\<rparr>, db1))"

definition buildDigestPage :: "connection \<Rightarrow> DailyDigest \<Rightarrow> DigestPage \<times> connection" where
  "buildDigestPage db dg =
     (let (countryRows, db1) = stmt_all js_country (sql_country_digest (dd_id dg)) db;
          (cs, db2) = map_db country_with_releases countryRows db1
      in (\<lparr>digest = dg, countries = cs\<rparr>, db2))"

text \<open>The callback of \<open>countryRows.map\<close> in \<open>buildWeeklyPage\<close>.\<close>

definition weekly_country :: "weekly_country_digest_row \<Rightarrow> WeeklyCountryDigest" where
  "weekly_country c =
     \<lparr>id_w = wc_id c,
      w_country_code = wc_country_code c,
      w_country_name = wc_country_name c,
      w_title = or_empty (wc_title c),
      w_summary = wc_summary c\<rparr>"

definition buildWeeklyPage :: "connection \<Rightarrow> WeeklyDigest \<Rightarrow> WeeklyPage \<times> connection" where
  "buildWeeklyPage db dg =
     (let (countryRows, db1) = stmt_all js_weekly_country (sql_weekly_country_digest (wd_id dg)) db
      in (\<lparr>w_digest = dg, w_countries = map weekly_country countryRows\<rparr>, db1))"

text \<open>
  The five exported readers. Each opens the file, runs its statements and closes the
  connection (the \<open>finally\<close> block); the result is the returned value, \<open>None\<close> for
  \<open>null\<close>, and the file as the call leaves it.
\<close>

definition getLatestDigest :: "database \<Rightarrow> DigestPage option \<times> database" where
  "getLatestDigest file =
     (let db = getDb file;
          (row, db1) = stmt_get js_daily sql_latest_daily db
      in case row of
           None \<Rightarrow> (None, close db1)
         | Some r \<Rightarrow> (let (page, db2) = buildDigestPage db1 r in (Some page, close db2)))"

definition getDigestByDate :: "string \<Rightarrow> database \<Rightarrow> DigestPage option \<times> database" where
  "getDigestByDate d file =
     (let db = getDb file;
          (row, db1) = stmt_get js_daily (sql_daily_by_date d) db
      in case row of
           None \<Rightarrow> (None, close db1)
         | Some r \<Rightarrow> (let (page, db2) = buildDigestPage db1 r in (Some page, close db2)))"

definition getAllDigestDates :: "database \<Rightarrow> string list \<times> database" where
  "getAllDigestDates file =
     (let db = getDb file;
          (rows, db1) = stmt_all js_daily sql_all_daily db
      in (map dd_date rows, close db1))"

definition getWeeklyDigest :: "string \<Rightarrow> database \<Rightarrow> WeeklyPage option \<times> database" where
  "getWeeklyDigest weekEnd file =
     (let db = getDb file;
          (row, db1) = stmt_get js_weekly (sql_weekly_by_end weekEnd) db
      in case row of
           None \<Rightarrow> (None, close db1)
         | Some r \<Rightarrow> (let (page, db2) = buildWeeklyPage db1 r in (Some page, close db2)))"

definition getAllWeeklyDates :: "database \<Rightarrow> string list \<times> database" where
  "getAllWeeklyDates file =
     (let db = getDb file;
          (rows, db1) = stmt_all js_weekly sql_all_weekly db
      in (map wd_week_end rows, close db1))"

section \<open>Social preview images\<close>

text \<open>
  A JavaScript string is the list of its UTF-16 code units: \<open>length\<close> and \<open>slice\<close>
  count those. \<open>js_lit\<close> is an ASCII literal of the source.
\<close>

type_synonym utf16 = "16 word list"

definition js_lit :: "string \<Rightarrow> utf16" where
  "js_lit s = map (\<lambda>c. of_nat (of_char c)) s"

text \<open>
  The element tree handed to \<open>satori\<close>. A style value is a string, a whole number, or
  a decimal \<open>Dec m e\<close> standing for \<open>m / 10^e\<close>. A \<open>children\<close> property that is a
  string is the one \<open>Text\<close> child; an element without \<open>children\<close> has none.
\<close>

datatype css = Str string | Num int | Dec int nat

datatype element = Element string "(string \<times> css) list" "element list" | Text utf16

fun texts :: "element \<Rightarrow> utf16 list" where
  "texts (Text s) = [s]"
| "texts (Element tag style children) = concat (map texts children)"

definition og_markup :: "utf16 \<Rightarrow> utf16 \<Rightarrow> utf16 \<Rightarrow> element" where
  "og_markup headline description dateLabel =
     (let truncatedDesc =
            (if length description > 140 then take 137 description @ js_lit ''...''
             else description)
      in Element ''div''
           [(''width'', Str ''100%''), (''height'', Str ''100%''), (''display'', Str ''flex''),
            (''flexDirection'', Str ''column''), (''justifyContent'', Str ''space-between''),
            (''backgroundColor'', Str ''#1a1a1a''), (''padding'', Str ''60px 64px''),
            (''fontFamily'', Str ''Inter'')]
           [Element ''div''
              [(''display'', Str ''flex''), (''flexDirection'', Str ''column'')]
              [Element ''div''
                 [(''fontSize'', Num 22), (''fontWeight'', Num 400), (''color'', Str ''#888888''),
                  (''letterSpacing'', Str ''0.15em''), (''textTransform'', Str ''uppercase''),
                  (''marginBottom'', Num 16)]
                 [Text (js_lit ''What Is The Govt Saying'')],
               Element ''div''
                 [(''display'', Str ''flex''), (''width'', Str ''100%''), (''height'', Num 3),
                  (''backgroundColor'', Str ''#e2e0dc''), (''marginBottom'', Num 32)]
                 [],
               Element ''div''
                 [(''fontSize'', Num 48), (''fontWeight'', Num 700), (''color'', Str ''#ffffff''),
                  (''lineHeight'', Dec 12 1), (''marginBottom'', Num 24)]
                 [Text (if length headline > 90 then take 87 headline @ js_lit ''...''
                        else headline)],
               Element ''div''
                 [(''fontSize'', Num 22), (''fontWeight'', Num 400), (''color'', Str ''#aaaaaa''),
                  (''lineHeight'', Dec 15 1)]
                 [Text truncatedDesc]],
            Element ''div''
              [(''display'', Str ''flex''), (''justifyContent'', Str ''space-between''),
               (''alignItems'', Str ''center''), (''borderTop'', Str ''1px solid #333333''),
               (''paddingTop'', Num 20)]
              [Element ''div''
                 [(''fontSize'', Num 20), (''color'', Str ''#888888'')]
                 [Text dateLabel],
               Element ''div''
                 [(''fontSize'', Num 16), (''color'', Str ''#555555'')]
                 [Text (js_lit ''whatisthegovtsaying.com'')]]])"

text \<open>
  What the routes take from outside this development: the conversions of
  \<open>better-sqlite3\<close> between JavaScript strings and stored text, the helpers \<open>stripMd\<close>,
  \<open>formatDate\<close> and \<open>formatDateShort\<close> (regular expressions and locale formatting),
  and \<open>render\<close>, the font loading, \<open>satori\<close> at 1200 by 630 and \<open>sharp\<close> that turn
  the tree into a PNG. A failure of one of these (a font that cannot be fetched) rejects
  the promise and is not modelled; it can only happen once a page has been found.
\<close>

record 'png env =
  sql_text :: "utf16 \<Rightarrow> string"
  js_text :: "string \<Rightarrow> utf16"
  stripMd :: "utf16 \<Rightarrow> utf16"
  formatDate :: "utf16 \<Rightarrow> utf16"
  formatDateShort :: "utf16 \<Rightarrow> utf16"
  render :: "element \<Rightarrow> 'png"

definition generateOgImage :: "'png env \<Rightarrow> utf16 \<Rightarrow> utf16 \<Rightarrow> utf16 \<Rightarrow> 'png" where
  "generateOgImage e headline description dateLabel =
     render e (og_markup headline description dateLabel)"

text \<open>
  A response: its body, its status and its \<open>Content-Type\<close> header when it has one.
  \<open>new Response(body, init)\<close> takes the status from \<open>init\<close>, 200 when it gives none, and
  the \<open>Content-Type\<close> from the headers of \<open>init\<close>; when they give none, a string body
  brings \<open>text/plain;charset=UTF-8\<close> and a buffer brings no type.
\<close>

datatype 'png body = TextBody utf16 | PngBody 'png

record 'png response =
  body :: "'png body"
  status :: nat
  content_type :: "utf16 option"

definition Response_new :: "'png body \<Rightarrow> nat option \<Rightarrow> utf16 option \<Rightarrow> 'png response" where
  "Response_new b init_status init_content_type =
     \<lparr>body = b,
      status = (case init_status of None \<Rightarrow> 200 | Some st \<Rightarrow> st),
      content_type =
        (case init_content_type of
           Some t \<Rightarrow> Some t
         | None \<Rightarrow>
             (case b of
                TextBody _ \<Rightarrow> Some (js_lit ''text/plain;charset=UTF-8'')
              | PngBody _ \<Rightarrow> None))\<rparr>"

text \<open>
  \<open>x || fallback\<close> on the title read from the store, and
  \<open>s.replace(/[...]/g, "")\<close> for a class of single characters.
\<close>

definition title_or :: "'png env \<Rightarrow> string option \<Rightarrow> utf16 \<Rightarrow> utf16" where
  "title_or e t fallback =
     (case t of None \<Rightarrow> fallback
      | Some x \<Rightarrow> (if js_text e x = [] then fallback else js_text e x))"

definition remove_chars :: "string \<Rightarrow> utf16 \<Rightarrow> utf16" where
  "remove_chars cls s = filter (\<lambda>u. u \<notin> set (js_lit cls)) s"

text \<open>
  The \<open>GET\<close> handlers of \<open>og/daily/[date].png\<close> and \<open>og/weekly/[date].png\<close>. The
  result is the response, the list of the images generated on the way (one entry per
  call of \<open>generateOgImage\<close>), and the database file as the handler leaves it. The
  weekly date label is joined as the file under \<open>src\<close> has it: a space, the three
  characters U+00E2, U+20AC, U+201D, a space.
\<close>

definition GET_daily :: "'png env \<Rightarrow> utf16 \<Rightarrow> database \<Rightarrow> ('png response \<times> 'png list) \<times> database" where
  "GET_daily e date file =
     (let (page, file1) = getDigestByDate (sql_text e date) file
      in case page of
           None \<Rightarrow>
             ((Response_new (TextBody (js_lit ''Not found'')) (Some 404) None, []), file1)
         | Some p \<Rightarrow>
             (let headline =
                    stripMd e (title_or e (dd_global_title (digest p))
                                 (js_lit ''Government Press Digest''));
                  description =
                    take 160 (remove_chars ''*_#>[]'' (js_text e (dd_global_summary (digest p))));
                  dateLabel = formatDate e (js_text e (dd_date (digest p)));
                  png = generateOgImage e headline description dateLabel
              in ((Response_new (PngBody png) None (Some (js_lit ''image/png'')), [png]),
                  file1)))"

definition GET_weekly :: "'png env \<Rightarrow> utf16 \<Rightarrow> database \<Rightarrow> ('png response \<times> 'png list) \<times> database" where
  "GET_weekly e date file =
     (let (page, file1) = getWeeklyDigest (sql_text e date) file
      in case page of
           None \<Rightarrow>
             ((Response_new (TextBody (js_lit ''Not found'')) (Some 404) None, []), file1)
         | Some p \<Rightarrow>
             (let headline =
                    stripMd e (title_or e (wd_global_title (w_digest p))
                                 (js_lit ''Weekly Government Digest''));
                  description =
                    take 160 (remove_chars ''*_#>[]|'' (js_text e (wd_global_summary (w_digest p))));
                  dateLabel =
                    js_lit ''Week of '' @ formatDateShort e (js_text e (wd_week_start (w_digest p)))
                    @ [0x20, 0xE2, 0x20AC, 0x201D, 0x20] @ formatDate e (js_text e (wd_week_end (w_digest p)));
                  png = generateOgImage e headline description dateLabel
              in ((Response_new (PngBody png) None (Some (js_lit ''image/png'')), [png]),
                  file1)))"

section \<open>The country tables of the constants module\<close>

text \<open>
  The two object literals, as the lists of their entries in source order; a property
  read is \<open>map_of\<close>. A flag is the list of the code points of its \<open>\u{...}\<close> escapes.
\<close>

definition COUNTRY_NAMES :: "(string \<times> string) list" where
  "COUNTRY_NAMES =
    [(''AE'', ''UAE''),
     (''AR'', ''Argentina''),
     (''AU'', ''Australia''),
     (''BR'', ''Brazil''),
     (''CA'', ''Canada''),
     (''CH'', ''Switzerland''),
     (''CN'', ''China''),
     (''DE'', ''Germany''),
     (''ES'', ''Spain''),
     (''EU'', ''European Union''),
     (''FR'', ''France''),
     (''GB'', ''United Kingdom''),
     (''ID'', ''Indonesia''),
     (''IE'', ''Ireland''),
     (''IN'', ''India''),
     (''IT'', ''Italy''),
     (''JP'', ''Japan''),
     (''KR'', ''South Korea''),
     (''NG'', ''Nigeria''),
     (''NL'', ''Netherlands''),
     (''NZ'', ''New Zealand''),
     (''QA'', ''Qatar''),
     (''RU'', ''Russia''),
     (''SG'', ''Singapore''),
     (''TH'', ''Thailand''),
     (''TW'', ''Taiwan''),
     (''UN'', ''United Nations''),
     (''US'', ''United States''),
     (''VN'', ''Vietnam''),
     (''WHO'', ''WHO''),
     (''ZA'', ''South Africa'')]"

definition COUNTRY_FLAGS :: "(string \<times> nat list) list" where
  "COUNTRY_FLAGS =
    [(''AE'', [0x1F1E6, 0x1F1EA]),
     (''AR'', [0x1F1E6, 0x1F1F7]),
     (''AU'', [0x1F1E6, 0x1F1FA]),
     (''BR'', [0x1F1E7, 0x1F1F7]),
     (''CA'', [0x1F1E8, 0x1F1E6]),
     (''CH'', [0x1F1E8, 0x1F1ED]),
     (''CN'', [0x1F1E8, 0x1F1F3]),
     (''DE'', [0x1F1E9, 0x1F1EA]),
     (''ES'', [0x1F1EA, 0x1F1F8]),
     (''EU'', [0x1F1EA, 0x1F1FA]),
     (''FR'', [0x1F1EB, 0x1F1F7]),
     (''GB'', [0x1F1EC, 0x1F1E7]),
     (''ID'', [0x1F1EE, 0x1F1E9]),
     (''IE'', [0x1F1EE, 0x1F1EA]),
     (''IN'', [0x1F1EE, 0x1F1F3]),
     (''IT'', [0x1F1EE, 0x1F1F9]),
     (''JP'', [0x1F1EF, 0x1F1F5]),
     (''KR'', [0x1F1F0, 0x1F1F7]),
     (''NG'', [0x1F1F3, 0x1F1EC]),
     (''NL'', [0x1F1F3, 0x1F1F1]),
     (''NZ'', [0x1F1F3, 0x1F1FF]),
     (''QA'', [0x1F1F6, 0x1F1E6]),
     (''RU'', [0x1F1F7, 0x1F1FA]),
     (''SG'', [0x1F1F8, 0x1F1EC]),
     (''TH'', [0x1F1F9, 0x1F1ED]),
     (''TW'', [0x1F1F9, 0x1F1FC]),
     (''UN'', [0x1F1FA, 0x1F1F3]),
     (''US'', [0x1F1FA, 0x1F1F8]),
     (''VN'', [0x1F1FB, 0x1F1F3]),
     (''WHO'', [0x1F3E5]),
     (''ZA'', [0x1F1FF, 0x1F1E6])]"

section \<open>Previous and next day\<close>

text \<open>
  \<open>prevDate\<close> and \<open>nextDate\<close> run on the built-in \<open>Date\<close>. The time value is the
  number of milliseconds since the epoch, an integer here (every value met is far below
  \<open>2^53\<close>), and the operations are those of ECMA-262, section "Date Objects".
\<close>

definition msPerDay :: int where
  "msPerDay = 86400000"

definition Day :: "int \<Rightarrow> int" where
  "Day t = t div msPerDay"

definition TimeWithinDay :: "int \<Rightarrow> int" where
  "TimeWithinDay t = t mod msPerDay"

definition DaysInYear :: "int \<Rightarrow> int" where
  "DaysInYear y =
     (if y mod 4 \<noteq> 0 then 365
      else if y mod 100 \<noteq> 0 then 366
      else if y mod 400 \<noteq> 0 then 365
      else 366)"

definition DayFromYear :: "int \<Rightarrow> int" where
  "DayFromYear y =
     365 * (y - 1970) + (y - 1969) div 4 - (y - 1901) div 100 + (y - 1601) div 400"

definition TimeFromYear :: "int \<Rightarrow> int" where
  "TimeFromYear y = msPerDay * DayFromYear y"

text \<open>
  The standard defines \<open>YearFromTime t\<close> as the largest \<open>y\<close> with
  \<open>TimeFromYear y \<le> t\<close>. It is computed from the mean year length of 365.2425 days,
  which is off by at most one year; \<open>YearFromTime_largest\<close> below shows that the
  result is the year of the standard.
\<close>

definition YearFromTime :: "int \<Rightarrow> int" where
  "YearFromTime t =
     (let d = Day t; y = 1970 + (10000 * d) div 3652425
      in if DayFromYear (y + 1) \<le> d then y + 1
         else if DayFromYear y \<le> d then y
         else y - 1)"

definition InLeapYear :: "int \<Rightarrow> int" where
  "InLeapYear t = (if DaysInYear (YearFromTime t) = 366 then 1 else 0)"

definition DayWithinYear :: "int \<Rightarrow> int" where
  "DayWithinYear t = Day t - DayFromYear (YearFromTime t)"

definition MonthFromTime :: "int \<Rightarrow> int" where
  "MonthFromTime t =
     (let w = DayWithinYear t; l = InLeapYear t
      in if w < 31 then 0
         else if w < 59 + l then 1
         else if w < 90 + l then 2
         else if w < 120 + l then 3
         else if w < 151 + l then 4
         else if w < 181 + l then 5
         else if w < 212 + l then 6
         else if w < 243 + l then 7
         else if w < 273 + l then 8
         else if w < 304 + l then 9
         else if w < 334 + l then 10
         else 11)"

definition DateFromTime :: "int \<Rightarrow> int" where
  "DateFromTime t =
     (let w = DayWithinYear t; l = InLeapYear t; m = MonthFromTime t
      in if m = 0 then w + 1
         else if m = 1 then w - 30
         else if m = 2 then w - 58 - l
         else if m = 3 then w - 89 - l
         else if m = 4 then w - 119 - l
         else if m = 5 then w - 150 - l
         else if m = 6 then w - 180 - l
         else if m = 7 then w - 211 - l
         else if m = 8 then w - 242 - l
         else if m = 9 then w - 272 - l
         else if m = 10 then w - 303 - l
         else w - 333 - l)"

definition HourFromTime :: "int \<Rightarrow> int" where
  "HourFromTime t = (t div 3600000) mod 24"

definition MinFromTime :: "int \<Rightarrow> int" where
  "MinFromTime t = (t div 60000) mod 60"

definition SecFromTime :: "int \<Rightarrow> int" where
  "SecFromTime t = (t div 1000) mod 60"

definition msFromTime :: "int \<Rightarrow> int" where
  "msFromTime t = t mod 1000"

definition MakeTime :: "int \<Rightarrow> int \<Rightarrow> int \<Rightarrow> int \<Rightarrow> int" where
  "MakeTime h m s ms = h * 3600000 + m * 60000 + s * 1000 + ms"

text \<open>
  \<open>MakeDay year month date\<close>: the day number of the first of the month (month
  \<open>0\<close> to \<open>11\<close> after carrying whole years), plus \<open>date - 1\<close>; a \<open>date\<close> outside the
  month runs over into the neighbouring months.
\<close>

definition DaysBeforeMonth :: "int \<Rightarrow> int \<Rightarrow> int" where
  "DaysBeforeMonth mn l =
     (if mn = 0 then 0
      else if mn = 1 then 31
      else if mn = 2 then 59 + l
      else if mn = 3 then 90 + l
      else if mn = 4 then 120 + l
      else if mn = 5 then 151 + l
      else if mn = 6 then 181 + l
      else if mn = 7 then 212 + l
      else if mn = 8 then 243 + l
      else if mn = 9 then 273 + l
      else if mn = 10 then 304 + l
      else 334 + l)"

definition MakeDay :: "int \<Rightarrow> int \<Rightarrow> int \<Rightarrow> int" where
  "MakeDay year month date =
     (let ym = year + month div 12; mn = month mod 12;
          l = (if DaysInYear ym = 366 then 1 else 0)
      in DayFromYear ym + DaysBeforeMonth mn l + date - 1)"

definition MakeDate :: "int \<Rightarrow> int \<Rightarrow> int" where
  "MakeDate day time = day * msPerDay + time"

text \<open>\<open>TimeClip\<close>: a time value beyond 8.64e15 ms is \<open>NaN\<close>, here \<open>None\<close>.\<close>

definition TimeClip :: "int \<Rightarrow> int option" where
  "TimeClip t = (if \<bar>t\<bar> > 8640000000000000 then None else Some t)"

text \<open>Decimal digits: \<open>digits k n\<close> is \<open>n\<close> written with \<open>k\<close> digits, zero-padded.\<close>

fun digits :: "nat \<Rightarrow> nat \<Rightarrow> string" where
  "digits 0 n = []"
| "digits (Suc k) n = digits k (n div 10) @ [char_of (48 + n mod 10)]"

definition is_digit :: "char \<Rightarrow> bool" where
  "is_digit c = (48 \<le> (of_char c :: nat) \<and> (of_char c :: nat) \<le> 57)"

fun number_from :: "nat \<Rightarrow> string \<Rightarrow> nat option" where
  "number_from acc [] = Some acc"
| "number_from acc (c # cs) =
     (if is_digit c then number_from (10 * acc + (of_char c - 48)) cs else None)"

definition number :: "string \<Rightarrow> nat option" where
  "number s = number_from 0 s"

text \<open>
  \<open>new Date(s)\<close> on a string in the date-time format of ECMA-262 with the time part
  \<open>THH:mm:ssZ\<close>, which is what \<open>dateStr + "T12:00:00Z"\<close> is when \<open>dateStr\<close> is a date
  of that format: a year of four digits, or of a sign and six digits (\<open>-000000\<close>
  excepted), then nothing more, or \<open>-MM\<close>, or \<open>-MM-DD\<close>; an absent month or day is 1.
  As Node's engine does, a month from 01 to 12 and a day from 01 to 31 are accepted
  whatever the month, the day running over through \<open>MakeDay\<close>. The result \<open>None\<close>
  stands for every other string: the engine hands those to its legacy parser, which is
  not modelled, or makes an invalid date of them, on which \<open>toISOString\<close> throws
  \<open>RangeError\<close>.
\<close>

definition year_field :: "string \<Rightarrow> (int \<times> string) option" where
  "year_field s =
     (case s of
        [] \<Rightarrow> None
      | c # cs \<Rightarrow>
          if c = CHR ''+'' \<or> c = CHR ''-'' then
            (if length cs < 6 then None
             else case number (take 6 cs) of
                    None \<Rightarrow> None
                  | Some y \<Rightarrow>
                      if c = CHR ''-'' then (if y = 0 then None else Some (- int y, drop 6 cs))
                      else Some (int y, drop 6 cs))
          else
            (if length s < 4 then None
             else case number (take 4 s) of
                    None \<Rightarrow> None
                  | Some y \<Rightarrow> Some (int y, drop 4 s)))"

definition month_day_fields :: "string \<Rightarrow> (nat \<times> nat) option" where
  "month_day_fields r =
     (if r = [] then Some (1, 1)
      else if length r = 3 \<and> r ! 0 = CHR ''-'' then
        (case number (drop 1 r) of
           None \<Rightarrow> None
         | Some m \<Rightarrow> if 1 \<le> m \<and> m \<le> 12 then Some (m, 1) else None)
      else if length r = 6 \<and> r ! 0 = CHR ''-'' \<and> r ! 3 = CHR ''-'' then
        (case (number (take 2 (drop 1 r)), number (drop 4 r)) of
           (Some m, Some d) \<Rightarrow>
             if 1 \<le> m \<and> m \<le> 12 \<and> 1 \<le> d \<and> d \<le> 31 then Some (m, d) else None
         | _ \<Rightarrow> None)
      else None)"

definition time_field :: "string \<Rightarrow> int option" where
  "time_field s =
     (if length s = 10 \<and> s ! 0 = CHR ''T'' \<and> s ! 3 = CHR '':'' \<and> s ! 6 = CHR '':''
         \<and> s ! 9 = CHR ''Z''
      then
        (case (number (take 2 (drop 1 s)), number (take 2 (drop 4 s)),
               number (take 2 (drop 7 s))) of
           (Some hh, Some mm, Some ss) \<Rightarrow>
             if (hh < 24 \<or> hh = 24 \<and> mm = 0 \<and> ss = 0) \<and> mm < 60 \<and> ss < 60
             then Some (MakeTime (int hh) (int mm) (int ss) 0)
             else None
         | _ \<Rightarrow> None)
      else None)"

definition Date_new :: "string \<Rightarrow> int option" where
  "Date_new s =
     (let n = length s - 10
      in case (year_field (take n s), time_field (drop n s)) of
           (Some (y, r), Some t) \<Rightarrow>
             (case month_day_fields r of
                None \<Rightarrow> None
              | Some (m, d) \<Rightarrow> TimeClip (MakeDate (MakeDay y (int m - 1) (int d)) t))
         | _ \<Rightarrow> None)"

text \<open>\<open>d.setUTCDate(dt)\<close> on the time value \<open>t\<close>.\<close>

definition setUTCDate :: "int \<Rightarrow> int \<Rightarrow> int option" where
  "setUTCDate t dt =
     TimeClip (MakeDate (MakeDay (YearFromTime t) (MonthFromTime t) dt) (TimeWithinDay t))"

text \<open>
  \<open>toISOString\<close>: four digits for a year from 0 to 9999, a sign and six digits for
  any other year.
\<close>

definition toISOString :: "int \<Rightarrow> string" where
  "toISOString t =
     (let y = YearFromTime t
      in (if 0 \<le> y \<and> y \<le> 9999 then digits 4 (nat y)
          else (if y < 0 then ''-'' else ''+'') @ digits 6 (nat \<bar>y\<bar>))
         @ ''-'' @ digits 2 (nat (MonthFromTime t + 1))
         @ ''-'' @ digits 2 (nat (DateFromTime t))
         @ ''T'' @ digits 2 (nat (HourFromTime t))
         @ '':'' @ digits 2 (nat (MinFromTime t))
         @ '':'' @ digits 2 (nat (SecFromTime t))
         @ ''.'' @ digits 3 (nat (msFromTime t))
         @ ''Z'')"

definition prevDate :: "string \<Rightarrow> string option" where
  "prevDate dateStr =
     (case Date_new (dateStr @ ''T12:00:00Z'') of
        None \<Rightarrow> None
      | Some t \<Rightarrow>
          (case setUTCDate t (DateFromTime t - 1) of
             None \<Rightarrow> None
           | Some t' \<Rightarrow> Some (take 10 (toISOString t'))))"

definition nextDate :: "string \<Rightarrow> string option" where
  "nextDate dateStr =
     (case Date_new (dateStr @ ''T12:00:00Z'') of
        None \<Rightarrow> None
      | Some t \<Rightarrow>
          (case setUTCDate t (DateFromTime t + 1) of
             None \<Rightarrow> None
           | Some t' \<Rightarrow> Some (take 10 (toISOString t'))))"

text \<open>The number of leap days of a year, as \<open>InLeapYear\<close> counts them.\<close>

definition leap_days :: "int \<Rightarrow> int" where
  "leap_days y = (if DaysInYear y = 366 then 1 else 0)"

text \<open>
  The calendar the claims speak of, written from its usual rules and independent of the
  code above: a date is a year, a month and a day of the Gregorian calendar, and a
  \<open>YYYY-MM-DD\<close> string holds a year from 0000 to 9999.
\<close>

definition leap_year :: "int \<Rightarrow> bool" where
  "leap_year y = (y mod 4 = 0 \<and> (y mod 100 \<noteq> 0 \<or> y mod 400 = 0))"

definition days_in_month :: "int \<Rightarrow> int \<Rightarrow> int" where
  "days_in_month y m =
     (if m = 2 then (if leap_year y then 29 else 28)
      else if m = 4 \<or> m = 6 \<or> m = 9 \<or> m = 11 then 30
      else 31)"

definition valid_date :: "int \<times> int \<times> int \<Rightarrow> bool" where
  "valid_date c =
     (case c of (y, m, d) \<Rightarrow>
        0 \<le> y \<and> y \<le> 9999 \<and> 1 \<le> m \<and> m \<le> 12 \<and> 1 \<le> d \<and> d \<le> days_in_month y m)"

definition next_day :: "int \<times> int \<times> int \<Rightarrow> int \<times> int \<times> int" where
  "next_day c =
     (case c of (y, m, d) \<Rightarrow>
        if d < days_in_month y m then (y, m, d + 1)
        else if m < 12 then (y, m + 1, 1)
        else (y + 1, 1, 1))"

definition prev_day :: "int \<times> int \<times> int \<Rightarrow> int \<times> int \<times> int" where
  "prev_day c =
     (case c of (y, m, d) \<Rightarrow>
        if 1 < d then (y, m, d - 1)
        else if 1 < m then (y, m - 1, days_in_month y (m - 1))
        else (y - 1, 12, 31))"

definition iso_date :: "int \<times> int \<times> int \<Rightarrow> string" where
  "iso_date c =
     (case c of (y, m, d) \<Rightarrow>
        digits 4 (nat y) @ ''-'' @ digits 2 (nat m) @ ''-'' @ digits 2 (nat d))"

section \<open>An example store\<close>

text \<open>
  Two days, three countries and three releases, and one week; the releases of France
  are stored in the order \<open>Budget\<close>, \<open>Aid\<close>. \<open>example_page\<close> and
  \<open>example_weekly_page\<close> are the pages the readers return on it, and
  \<open>example_env\<close> gives the routes plain stand-ins for the helpers they take from
  outside.
\<close>

definition example_db :: database where
  "example_db =
     \<lparr>daily_digest =
        [\<lparr>dd_id = 1, dd_date = ''2025-01-01'', dd_global_title = Some ''Trade talks'',
          dd_global_summary = ''Summary of day one'', dd_created_at = ''2025-01-02 07:00:00''\<rparr>,
         \<lparr>dd_id = 2, dd_date = ''2025-01-02'', dd_global_title = None,
          dd_global_summary = ''Summary of day two'', dd_created_at = ''2025-01-03 07:00:00''\<rparr>],
      country_digest =
        [\<lparr>cd_id = 1, cd_daily_digest_id = 2, cd_country_code = ''US'',
          cd_country_name = ''United States'', cd_title = None, cd_summary = ''US rollup''\<rparr>,
         \<lparr>cd_id = 2, cd_daily_digest_id = 2, cd_country_code = ''FR'',
          cd_country_name = ''France'', cd_title = Some ''Paris'', cd_summary = ''FR rollup''\<rparr>,
         \<lparr>cd_id = 3, cd_daily_digest_id = 1, cd_country_code = ''IN'',
          cd_country_name = ''India'', cd_title = Some ''Delhi'', cd_summary = ''IN rollup''\<rparr>],
      release_summary =
        [\<lparr>rs_id = 1, rs_country_digest_id = 2, rs_release_id = 502, rs_title = ''Budget'',
          rs_summary = ''On the budget'', rs_original_url = ''https://b.example/1'',
          rs_ministry = Some ''Finance''\<rparr>,
         \<lparr>rs_id = 2, rs_country_digest_id = 2, rs_release_id = 501, rs_title = ''Aid'',
          rs_summary = ''On aid'', rs_original_url = ''https://a.example/2'',
          rs_ministry = None\<rparr>,
         \<lparr>rs_id = 3, rs_country_digest_id = 1, rs_release_id = 503, rs_title = ''Chips'',
          rs_summary = ''On chips'', rs_original_url = ''https://c.example/3'',
          rs_ministry = Some ''Commerce''\<rparr>],
      weekly_digest =
        [\<lparr>wd_id = 1, wd_week_start = ''2024-12-27'', wd_week_end = ''2025-01-02'',
          wd_global_title = Some ''The week'', wd_global_summary = ''Summary of the week'',
          wd_created_at = ''2025-01-03 07:05:00''\<rparr>],
      weekly_country_digest =
        [\<lparr>wc_id = 1, wc_weekly_digest_id = 1, wc_country_code = ''US'',
          wc_country_name = ''United States'', wc_title = Some ''Washington'',
          wc_summary = ''US week''\<rparr>,
         \<lparr>wc_id = 2, wc_weekly_digest_id = 1, wc_country_code = ''FR'',
          wc_country_name = ''France'', wc_title = None, wc_summary = ''FR week''\<rparr>]\<rparr>"

text \<open>
  A store with integers beyond \<open>2^53\<close>: France has the id \<open>2^53 + 1\<close> and Germany the
  id \<open>2^53\<close>, each with one release, and the release of Germany has the largest
  \<open>release_id\<close> that SQLite can hold.
\<close>

definition rounding_db :: database where
  "rounding_db =
     \<lparr>daily_digest =
        [\<lparr>dd_id = 1, dd_date = ''2025-01-03'', dd_global_title = Some ''Day three'',
          dd_global_summary = ''Summary of day three'', dd_created_at = ''2025-01-04 07:00:00''\<rparr>],
      country_digest =
        [\<lparr>cd_id = 9007199254740993, cd_daily_digest_id = 1, cd_country_code = ''FR'',
          cd_country_name = ''France'', cd_title = Some ''Paris'', cd_summary = ''FR rollup''\<rparr>,
         \<lparr>cd_id = 9007199254740992, cd_daily_digest_id = 1, cd_country_code = ''DE'',
          cd_country_name = ''Germany'', cd_title = Some ''Berlin'', cd_summary = ''DE rollup''\<rparr>],
      release_summary =
        [\<lparr>rs_id = 1, rs_country_digest_id = 9007199254740993, rs_release_id = 7,
          rs_title = ''French release'', rs_summary = ''From Paris'',
          rs_original_url = ''https://f.example/1'', rs_ministry = None\<rparr>,
         \<lparr>rs_id = 2, rs_country_digest_id = 9007199254740992,
          rs_release_id = 9223372036854775807,
          rs_title = ''German release'', rs_summary = ''From Berlin'',
          rs_original_url = ''https://g.example/2'', rs_ministry = None\<rparr>],
      weekly_digest = [],
      weekly_country_digest = []\<rparr>"


definition example_env :: "element env" where
  "example_env =
     \<lparr>sql_text = map (\<lambda>u. char_of (unat u)),
      js_text = js_lit,
      stripMd = (\<lambda>s. s),
      formatDate = (\<lambda>s. s),
      formatDateShort = (\<lambda>s. s),
      render = (\<lambda>t. t)\<rparr>"

definition example_page :: DigestPage where
  "example_page =
     \<lparr>digest =
        \<lparr>dd_id = 2, dd_date = ''2025-01-02'', dd_global_title = None,
         dd_global_summary = ''Summary of day two'', dd_created_at = ''2025-01-03 07:00:00''\<rparr>,
      countries =
        [\<lparr>id_c = 2, country_code = ''FR'', country_name = ''France'', title = ''Paris'',
          summary = ''FR rollup'',
          releases =
            [\<lparr>rs_id = 1, rs_country_digest_id = 2, rs_release_id = 502, rs_title = ''Budget'',
              rs_summary = ''On the budget'', rs_original_url = ''https://b.example/1'',
              rs_ministry = Some ''Finance''\<rparr>,
             \<lparr>rs_id = 2, rs_country_digest_id = 2, rs_release_id = 501, rs_title = ''Aid'',
              rs_summary = ''On aid'', rs_original_url = ''https://a.example/2'',
              rs_ministry = None\<rparr>]\<rparr>,
         \<lparr>id_c = 1, country_code = ''US'', country_name = ''United States'', title = [],
          summary = ''US rollup'',
          releases =
            [\<lparr>rs_id = 3, rs_country_digest_id = 1, rs_release_id = 503, rs_title = ''Chips'',
              rs_summary = ''On chips'', rs_original_url = ''https://c.example/3'',
              rs_ministry = Some ''Commerce''\<rparr>]\<rparr>]\<rparr>"

definition example_weekly_page :: WeeklyPage where
  "example_weekly_page =
     \<lparr>w_digest =
        \<lparr>wd_id = 1, wd_week_start = ''2024-12-27'', wd_week_end = ''2025-01-02'',
         wd_global_title = Some ''The week'', wd_global_summary = ''Summary of the week'',
         wd_created_at = ''2025-01-03 07:05:00''\<rparr>,
      w_countries =
        [\<lparr>id_w = 2, w_country_code = ''FR'', w_country_name = ''France'', w_title = [],
          w_summary = ''FR week''\<rparr>,
         \<lparr>id_w = 1, w_country_code = ''US'', w_country_name = ''United States'',
          w_title = ''Washington'', w_summary = ''US week''\<rparr>]\<rparr>"

section \<open>JavaScript numbers\<close>

lemma double_spacing_small: "a < 2 ^ 53 \<Longrightarrow> double_spacing a = 1"
  by (simp add: double_spacing.simps)

lemma double_spacing_pos: "0 < double_spacing a"
  by (induction a rule: double_spacing.induct) (subst double_spacing.simps, simp)

lemma double_spacing_power: "\<exists>k. double_spacing a = 2 ^ k"
proof (induction a rule: double_spacing.induct)
  case (1 a)
  show ?case
  proof (cases "a < 2 ^ 53")
    case True
    then have "double_spacing a = 2 ^ 0" by (simp add: double_spacing_small)
    then show ?thesis by blast
  next
    case False
    with 1 obtain k where "double_spacing (a div 2) = 2 ^ k" by blast
    with False have "double_spacing a = 2 ^ Suc k"
      by (subst double_spacing.simps) simp
    then show ?thesis by blast
  qed
qed

lemma double_spacing_bounds:
  "2 ^ 53 \<le> a \<Longrightarrow> 2 ^ 52 * double_spacing a \<le> a \<and> a < 2 ^ 53 * double_spacing a"
proof (induction a rule: double_spacing.induct)
  case (1 a)
  from "1.prems" have s: "double_spacing a = 2 * double_spacing (a div 2)"
    by (subst double_spacing.simps) simp
  show ?case
  proof (cases "a div 2 < 2 ^ 53")
    case True
    then have "double_spacing (a div 2) = 1" by (rule double_spacing_small)
    with s have "double_spacing a = 2" by simp
    with True "1.prems" show ?thesis by simp
  next
    case False
    with 1 have ih: "2 ^ 52 * double_spacing (a div 2) \<le> a div 2"
      "a div 2 < 2 ^ 53 * double_spacing (a div 2)"
      by simp_all
    define u where "u = double_spacing (a div 2)"
    define h where "h = a div 2"
    have a: "2 * h \<le> a" "a < 2 * h + 2" unfolding h_def by simp_all
    from ih have "4503599627370496 * u \<le> h" "h < 9007199254740992 * u" by (simp_all add: u_def h_def)
    with a have "4503599627370496 * (2 * u) \<le> a \<and> a < 9007199254740992 * (2 * u)"
      by linarith
    then show ?thesis by (simp add: s u_def)
  qed
qed

text \<open>
  Rounding at work: beyond \<open>2^53\<close> odd integers are lost, and the largest 64-bit integer
  reads as \<open>2^63\<close>.
\<close>

lemma js_number_examples:
  "js_number 42 = 42"
  "js_number (2 ^ 53 + 1) = 2 ^ 53"
  "js_number (2 ^ 53 + 3) = 2 ^ 53 + 4"
  "js_number (- (2 ^ 53) - 1) = - (2 ^ 53)"
  "js_number (2 ^ 63 - 1) = 2 ^ 63"
  by (simp_all add: js_number_def round_to_double_def double_spacing.simps)

lemma double_spacing_upper: "a < 2 ^ 53 * double_spacing a"
proof (cases "a < 2 ^ 53")
  case True
  then show ?thesis by (simp add: double_spacing_small)
next
  case False
  then show ?thesis using double_spacing_bounds [of a] by simp
qed

lemma double_spacing_lower: "1 < double_spacing a \<Longrightarrow> 2 ^ 52 * double_spacing a \<le> a"
proof -
  assume u: "1 < double_spacing a"
  then have "\<not> a < 2 ^ 53" using double_spacing_small [of a] by auto
  then show ?thesis using double_spacing_bounds [of a] by simp
qed

lemma double_spacing_twice:
  assumes "double_spacing a < double_spacing b"
  shows "2 * double_spacing a \<le> double_spacing b"
proof -
  obtain j where j: "double_spacing a = 2 ^ j" using double_spacing_power by blast
  obtain k where k: "double_spacing b = 2 ^ k" using double_spacing_power by blast
  from assms j k have "j < k" by simp
  then have "(2 :: nat) ^ Suc j \<le> 2 ^ k" by (intro power_increasing) simp_all
  with j k show ?thesis by simp
qed

lemma double_spacing_mono:
  assumes "a \<le> b"
  shows "double_spacing a \<le> double_spacing b"
proof (rule ccontr)
  assume "\<not> double_spacing a \<le> double_spacing b"
  then have lt: "double_spacing b < double_spacing a" by simp
  then have t: "2 * double_spacing b \<le> double_spacing a" by (rule double_spacing_twice)
  have "1 < double_spacing a" using lt double_spacing_pos [of b] by simp
  then have "2 ^ 52 * double_spacing a \<le> a" by (rule double_spacing_lower)
  moreover have "b < 2 ^ 53 * double_spacing b" by (rule double_spacing_upper)
  ultimately have "b < a" using t by simp
  with assms show False by simp
qed

lemma round_to_double_between:
  "a div double_spacing a * double_spacing a \<le> round_to_double a
   \<and> round_to_double a \<le> (a div double_spacing a + 1) * double_spacing a"
  by (simp add: round_to_double_def Let_def)

lemma round_to_double_mono:
  assumes "a \<le> b"
  shows "round_to_double a \<le> round_to_double b"
proof -
  define u where "u = double_spacing a"
  define v where "v = double_spacing b"
  have uv: "u \<le> v" unfolding u_def v_def using assms by (rule double_spacing_mono)
  have up: "0 < u" "0 < v" by (simp_all add: u_def v_def double_spacing_pos)
  note ra = round_to_double_between [of a, folded u_def]
  note rb = round_to_double_between [of b, folded v_def]
  show ?thesis
  proof (cases "u = v")
    case True
    have q: "a div u \<le> b div u" using assms by (rule div_le_mono)
    show ?thesis
    proof (cases "a div u = b div u")
      case False
      with q have "a div u + 1 \<le> b div u" by simp
      then have "(a div u + 1) * u \<le> b div u * u" by (rule mult_le_mono1)
      with ra rb True show ?thesis by simp
    next
      case same: True
      have r: "a mod u \<le> b mod u"
        using assms div_mult_mod_eq [of a u] div_mult_mod_eq [of b u] unfolding same
        by linarith
      show ?thesis
      proof (cases "2 * (a mod u) < u \<or> (2 * (a mod u) = u \<and> even (a div u))")
        case True
        then have "round_to_double a = a div u * u"
          by (simp add: round_to_double_def Let_def u_def)
        with rb same \<open>u = v\<close> show ?thesis by simp
      next
        case False
        with r same have "\<not> (2 * (b mod u) < u \<or> (2 * (b mod u) = u \<and> even (b div u)))"
          by auto
        then have "round_to_double b = (b div u + 1) * u"
          unfolding \<open>u = v\<close> v_def by (auto simp: round_to_double_def Let_def)
        with ra same show ?thesis by simp
      qed
    qed
  next
    case False
    with uv have lt: "double_spacing a < double_spacing b" by (simp add: u_def v_def)
    then have t: "2 * u \<le> v" unfolding u_def v_def by (rule double_spacing_twice)
    have "a < 2 ^ 53 * u" unfolding u_def by (rule double_spacing_upper)
    then have "a div u < 2 ^ 53" using up by (simp add: less_mult_imp_div_less mult.commute)
    then have "a div u + 1 \<le> 2 ^ 53" by simp
    then have "(a div u + 1) * u \<le> 2 ^ 53 * u" by (rule mult_le_mono1)
    also have "\<dots> \<le> 2 ^ 52 * v" using t by simp
    also have "\<dots> \<le> b div v * v"
    proof -
      have "1 < v" using t up by simp
      then have "2 ^ 52 * v \<le> b" unfolding v_def by (rule double_spacing_lower)
      then have "2 ^ 52 \<le> b div v" using up by (simp add: less_eq_div_iff_mult_less_eq)
      then show ?thesis by (rule mult_le_mono1)
    qed
    finally show ?thesis using ra rb by simp
  qed
qed

lemma round_to_double_exact: "a \<le> 2 ^ 53 \<Longrightarrow> round_to_double a = a"
proof (cases "a < 2 ^ 53")
  case True
  then show ?thesis by (simp add: round_to_double_def double_spacing_small)
next
  case False
  assume "a \<le> 2 ^ 53"
  with False have "a = 2 ^ 53" by simp
  then show ?thesis by (simp add: round_to_double_def double_spacing.simps)
qed

lemma js_number_exact: "\<bar>x\<bar> \<le> 2 ^ 53 \<Longrightarrow> js_number x = x"
  by (auto simp: js_number_def round_to_double_exact nat_le_iff)

lemma js_number_mono:
  assumes "x \<le> y"
  shows "js_number x \<le> js_number y"
proof -
  consider "y < 0" | "x < 0" "0 \<le> y" | "0 \<le> x" by linarith
  then show ?thesis
  proof cases
    case 1
    with assms have "nat (- y) \<le> nat (- x)" by simp
    then have "round_to_double (nat (- y)) \<le> round_to_double (nat (- x))"
      by (rule round_to_double_mono)
    with 1 assms show ?thesis by (simp add: js_number_def)
  next
    case 2
    then show ?thesis by (simp add: js_number_def)
  next
    case 3
    with assms have "nat x \<le> nat y" by simp
    then have "round_to_double (nat x) \<le> round_to_double (nat y)"
      by (rule round_to_double_mono)
    with 3 assms show ?thesis by (simp add: js_number_def)
  qed
qed

lemma sorted_map_js_number: "sorted xs \<Longrightarrow> sorted (map js_number xs)"
  by (induction xs) (auto simp: js_number_mono)

section \<open>Properties of the readers, the tables and the routes\<close>

lemma map_db_frame:
  assumes "\<And>x c. snd (f x c) = c"
  shows "map_db f xs db = (map (\<lambda>x. fst (f x db)) xs, db)"
proof (induction xs)
  case Nil
  show ?case by simp
next
  case (Cons x xs)
  obtain y where y: "f x db = (y, db)"
    using assms [of x db] by (cases "f x db") simp
  from Cons y show ?case by simp
qed

lemma js_fields [simp]:
  "dd_date (js_daily r) = dd_date r"
  "dd_id (js_daily r) = js_number (dd_id r)"
  "wd_week_end (js_weekly w) = wd_week_end w"
  "wd_id (js_weekly w) = js_number (wd_id w)"
  "cd_country_name (js_country c) = cd_country_name c"
  "wc_country_name (js_weekly_country v) = wc_country_name v"
  "rs_id (js_release x) = js_number (rs_id x)"
  by (simp_all add: js_daily_def js_weekly_def js_country_def js_weekly_country_def js_release_def)

lemma country_with_releases_frame: "snd (country_with_releases c db) = db"
  by (simp add: country_with_releases_def stmt_all_def)

lemma buildDigestPage_eq:
  "buildDigestPage db dg =
     (\<lparr>digest = dg,
       countries =
         map (\<lambda>c. fst (country_with_releases (js_country c) db))
           (sql_country_digest (dd_id dg) (store db))\<rparr>,
      db)"
  by (simp add: buildDigestPage_def stmt_all_def map_db_frame [OF country_with_releases_frame]
      comp_def)

lemma buildWeeklyPage_eq:
  "buildWeeklyPage db dg =
     (\<lparr>w_digest = dg,
       w_countries =
         map (\<lambda>c. weekly_country (js_weekly_country c))
           (sql_weekly_country_digest (wd_id dg) (store db))\<rparr>,
      db)"
  by (simp add: buildWeeklyPage_def stmt_all_def comp_def)

lemmas reader_defs =
  getDigestByDate_def getLatestDigest_def getWeeklyDigest_def getAllDigestDates_def
  getAllWeeklyDates_def getDb_def close_def stmt_get_def stmt_all_def
  buildDigestPage_eq buildWeeklyPage_eq

lemmas sql_defs =
  sql_latest_daily_def sql_daily_by_date_def sql_all_daily_def sql_weekly_by_end_def
  sql_all_weekly_def sql_country_digest_def sql_release_summary_def
  sql_weekly_country_digest_def order_by_def order_by_desc_def

lemma first_of_filter:
  "(case filter P xs of [] \<Rightarrow> None | r # _ \<Rightarrow> Some r) = find P xs"
  by (induction xs) simp_all

lemma getDigestByDate_find:
  "fst (getDigestByDate d file) =
     map_option (\<lambda>r. fst (buildDigestPage (getDb file) (js_daily r)))
       (find (\<lambda>r. dd_date r = d) (daily_digest file))"
proof -
  have "find (\<lambda>r. dd_date r = d) (daily_digest file)
      = (case sql_daily_by_date d file of [] \<Rightarrow> None | r # _ \<Rightarrow> Some r)"
    by (simp add: sql_daily_by_date_def first_of_filter)
  then have "fst (stmt_get js_daily (sql_daily_by_date d) (getDb file))
      = map_option js_daily (find (\<lambda>r. dd_date r = d) (daily_digest file))"
    by (cases "sql_daily_by_date d file") (simp_all add: stmt_get_def getDb_def)
  then show ?thesis
    by (cases "find (\<lambda>r. dd_date r = d) (daily_digest file)")
       (simp_all add: getDigestByDate_def stmt_get_def buildDigestPage_eq getDb_def Let_def)
qed

lemma getWeeklyDigest_find:
  "fst (getWeeklyDigest w file) =
     map_option (\<lambda>r. fst (buildWeeklyPage (getDb file) (js_weekly r)))
       (find (\<lambda>r. wd_week_end r = w) (weekly_digest file))"
proof -
  have "find (\<lambda>r. wd_week_end r = w) (weekly_digest file)
      = (case sql_weekly_by_end w file of [] \<Rightarrow> None | r # _ \<Rightarrow> Some r)"
    by (simp add: sql_weekly_by_end_def first_of_filter)
  then have "fst (stmt_get js_weekly (sql_weekly_by_end w) (getDb file))
      = map_option js_weekly (find (\<lambda>r. wd_week_end r = w) (weekly_digest file))"
    by (cases "sql_weekly_by_end w file") (simp_all add: stmt_get_def getDb_def)
  then show ?thesis
    by (cases "find (\<lambda>r. wd_week_end r = w) (weekly_digest file)")
       (simp_all add: getWeeklyDigest_def stmt_get_def buildWeeklyPage_eq getDb_def Let_def)
qed


lemma sort_key_Nil_iff: "(sort_key k xs = []) = (xs = [])"
  by (metis length_sort length_0_conv)


lemma getLatestDigest_last:
  "daily_digest file \<noteq> [] \<Longrightarrow>
     fst (getLatestDigest file) =
       Some (fst (buildDigestPage (getDb file)
                    (js_daily (last (sort_key dd_date (rev (daily_digest file)))))))"
proof -
  assume ne: "daily_digest file \<noteq> []"
  let ?ys = "sort_key dd_date (rev (daily_digest file))"
  have "?ys \<noteq> []" using ne by (simp add: sort_key_Nil_iff)
  then have "take 1 (rev ?ys) = [last ?ys]"
    by (cases ?ys rule: rev_cases) simp_all
  then show ?thesis
    by (simp add: getLatestDigest_def stmt_get_def sql_latest_daily_def order_by_desc_def
        getDb_def buildDigestPage_eq Let_def)
qed

lemma getLatestDigest_cases:
  "fst (getLatestDigest file) =
     (if daily_digest file = [] then None
      else Some (fst (buildDigestPage (getDb file)
                        (js_daily (last (sort_key dd_date (rev (daily_digest file))))))))"
proof (cases "daily_digest file = []")
  case True
  then show ?thesis
    by (simp add: getLatestDigest_def stmt_get_def sql_latest_daily_def order_by_desc_def getDb_def)
next
  case False
  then show ?thesis by (simp add: getLatestDigest_last)
qed

lemma page_of_row:
  "fst (buildDigestPage (getDb file) r) =
     \<lparr>digest = r,
      countries =
        map (\<lambda>c. \<lparr>id_c = js_number (cd_id c), country_code = cd_country_code c,
                  country_name = cd_country_name c, title = or_empty (cd_title c),
                  summary = cd_summary c,
                  releases = map js_release (sql_release_summary (js_number (cd_id c)) file)\<rparr>)
            (sort_key cd_country_name
               (sort_key cd_country_code
                  (filter (\<lambda>c. cd_daily_digest_id c = dd_id r) (country_digest file))))\<rparr>"
  by (simp add: buildDigestPage_eq getDb_def country_with_releases_def stmt_all_def
      sql_country_digest_def order_by_def js_country_def)

lemma weekly_page_of_row:
  "fst (buildWeeklyPage (getDb file) r) =
     \<lparr>w_digest = r,
      w_countries =
        map (\<lambda>c. weekly_country (js_weekly_country c))
            (sort_key wc_country_name
               (filter (\<lambda>c. wc_weekly_digest_id c = wd_id r) (weekly_country_digest file)))\<rparr>"
  by (simp add: buildWeeklyPage_eq getDb_def sql_weekly_country_digest_def order_by_def)

lemma daily_page_has_row:
  assumes "fst (getLatestDigest file) = Some p \<or> fst (getDigestByDate d file) = Some p"
  shows "p = fst (buildDigestPage (getDb file) (digest p))"
proof -
  from assms obtain r where "p = fst (buildDigestPage (getDb file) r)"
    by (auto simp: getLatestDigest_cases getDigestByDate_find split: if_splits)
  then show ?thesis by (simp add: page_of_row)
qed

lemma weekly_page_has_row:
  assumes "fst (getWeeklyDigest w file) = Some q"
  shows "q = fst (buildWeeklyPage (getDb file) (w_digest q))"
proof -
  from assms obtain r where "q = fst (buildWeeklyPage (getDb file) r)"
    by (auto simp: getWeeklyDigest_find)
  then show ?thesis by (simp add: weekly_page_of_row)
qed

lemmas example_eval =
  reader_defs sql_defs country_with_releases_def weekly_country_def or_empty_def
  js_daily_def js_country_def js_release_def js_weekly_def js_weekly_country_def js_number_exact
  example_db_def example_page_def example_weekly_page_def

lemma example_by_date: "fst (getDigestByDate ''2025-01-02'' example_db) = Some example_page"
  by (simp add: example_eval)

lemma example_latest: "fst (getLatestDigest example_db) = Some example_page"
  by (simp add: example_eval)

lemma example_weekly: "fst (getWeeklyDigest ''2025-01-02'' example_db) = Some example_weekly_page"
  by (simp add: example_eval)

text \<open>
  On \<open>rounding_db\<close> both countries come back with the id \<open>2^53\<close> and with the release
  of Germany, whose \<open>release_id\<close> reads \<open>2^63\<close>; the release of France is not on the
  page.
\<close>

lemma rounding_example:
  "map (\<lambda>c. (country_name c, id_c c, map rs_title (releases c), map rs_release_id (releases c)))
     (countries (the (fst (getDigestByDate ''2025-01-03'' rounding_db))))
   = [(''France'', 9007199254740992, [''German release''], [9223372036854775808]),
      (''Germany'', 9007199254740992, [''German release''], [9223372036854775808])]"
proof -
  have n: "js_number 1 = 1" "js_number 2 = 2"
    "js_number 9007199254740993 = 9007199254740992"
    "js_number 9007199254740992 = 9007199254740992"
    "js_number 9223372036854775807 = 9223372036854775808"
    by (simp_all add: js_number_def round_to_double_def double_spacing.simps)
  show ?thesis
    by (simp add: reader_defs sql_defs country_with_releases_def or_empty_def
        js_daily_def js_country_def js_release_def n rounding_db_def)
qed

text \<open>
  Claim C1. The five readers are read-only: whatever the file holds, each of them hands
  it back as it was, and the connection they work on is opened with \<open>readonly\<close>.
\<close>

theorem readers_leave_file_unchanged:
  "snd (getLatestDigest file) = file
   \<and> snd (getDigestByDate d file) = file
   \<and> snd (getAllDigestDates file) = file
   \<and> snd (getWeeklyDigest w file) = file
   \<and> snd (getAllWeeklyDates file) = file
   \<and> readonly (getDb file)"
  by (simp add: reader_defs split: list.split)

text \<open>
  Claim C2. The countries of a page returned by \<open>getLatestDigest\<close> or
  \<open>getDigestByDate\<close> are the rows of \<open>country_digest\<close> whose
  \<open>daily_digest_id\<close> is the id of the page's digest, each row once, in ascending order
  of \<open>country_name\<close>, every row turned into a \<open>CountryDigest\<close> (its id as JavaScript
  reads it, an absent title as the empty string) with the releases read for that id; the
  countries of a page returned by \<open>getWeeklyDigest\<close> are likewise the matching rows
  of \<open>weekly_country_digest\<close>.
\<close>

theorem page_countries_are_the_matching_rows:
  "(fst (getLatestDigest file) = Some p \<or> fst (getDigestByDate d file) = Some p \<longrightarrow>
      (\<exists>rows.
          mset rows =
            mset (filter (\<lambda>c. cd_daily_digest_id c = dd_id (digest p)) (country_digest file))
        \<and> sorted (map cd_country_name rows)
        \<and> countries p =
            map (\<lambda>c. \<lparr>id_c = js_number (cd_id c), country_code = cd_country_code c,
                      country_name = cd_country_name c, title = or_empty (cd_title c),
                      summary = cd_summary c,
                      releases = map js_release (sql_release_summary (js_number (cd_id c)) file)\<rparr>)
                rows)
      \<and> sorted (map country_name (countries p)))
   \<and> (fst (getWeeklyDigest w file) = Some q \<longrightarrow>
      (\<exists>rows.
          mset rows =
            mset (filter (\<lambda>c. wc_weekly_digest_id c = wd_id (w_digest q))
                    (weekly_country_digest file))
        \<and> sorted (map wc_country_name rows)
        \<and> w_countries q = map (\<lambda>c. weekly_country (js_weekly_country c)) rows)
      \<and> sorted (map w_country_name (w_countries q)))"
proof (intro conjI impI)
  assume a: "fst (getLatestDigest file) = Some p \<or> fst (getDigestByDate d file) = Some p"
  let ?rows = "sort_key cd_country_name
      (sort_key cd_country_code
         (filter (\<lambda>c. cd_daily_digest_id c = dd_id (digest p)) (country_digest file)))"
  have p: "p = fst (buildDigestPage (getDb file) (digest p))"
    using a by (rule daily_page_has_row)
  have c: "countries p =
      map (\<lambda>c. \<lparr>id_c = js_number (cd_id c), country_code = cd_country_code c,
                country_name = cd_country_name c, title = or_empty (cd_title c),
                summary = cd_summary c,
                releases = map js_release (sql_release_summary (js_number (cd_id c)) file)\<rparr>)
        ?rows"
    by (subst p) (simp add: page_of_row)
  have s: "sorted (map cd_country_name ?rows)" by (rule sorted_sort_key)
  have m: "mset ?rows =
      mset (filter (\<lambda>c. cd_daily_digest_id c = dd_id (digest p)) (country_digest file))"
    by simp
  from m s c show "\<exists>rows.
          mset rows =
            mset (filter (\<lambda>c. cd_daily_digest_id c = dd_id (digest p)) (country_digest file))
        \<and> sorted (map cd_country_name rows)
        \<and> countries p =
            map (\<lambda>c. \<lparr>id_c = js_number (cd_id c), country_code = cd_country_code c,
                      country_name = cd_country_name c, title = or_empty (cd_title c),
                      summary = cd_summary c,
                      releases = map js_release (sql_release_summary (js_number (cd_id c)) file)\<rparr>)
                rows"
    by blast
  have "map country_name (countries p) = map cd_country_name ?rows"
    by (subst c) (simp add: comp_def)
  with s show "sorted (map country_name (countries p))" by simp
next
  assume a: "fst (getWeeklyDigest w file) = Some q"
  let ?rows = "sort_key wc_country_name
      (filter (\<lambda>c. wc_weekly_digest_id c = wd_id (w_digest q)) (weekly_country_digest file))"
  have q: "q = fst (buildWeeklyPage (getDb file) (w_digest q))"
    using a by (rule weekly_page_has_row)
  have c: "w_countries q = map (\<lambda>c. weekly_country (js_weekly_country c)) ?rows"
    by (subst q) (simp add: weekly_page_of_row)
  have s: "sorted (map wc_country_name ?rows)" by (rule sorted_sort_key)
  have m: "mset ?rows =
      mset (filter (\<lambda>c. wc_weekly_digest_id c = wd_id (w_digest q)) (weekly_country_digest file))"
    by simp
  from m s c show "\<exists>rows.
          mset rows =
            mset (filter (\<lambda>c. wc_weekly_digest_id c = wd_id (w_digest q))
                    (weekly_country_digest file))
        \<and> sorted (map wc_country_name rows)
        \<and> w_countries q = map (\<lambda>c. weekly_country (js_weekly_country c)) rows"
    by blast
  have "map w_country_name (w_countries q) = map wc_country_name ?rows"
    by (subst c) (simp add: comp_def weekly_country_def)
  with s show "sorted (map w_country_name (w_countries q))" by simp
qed

theorem page_countries_witness:
  "fst (getLatestDigest example_db) = Some example_page
   \<and> fst (getDigestByDate ''2025-01-02'' example_db) = Some example_page
   \<and> sorted (map country_name (countries example_page))
   \<and> map country_name (countries example_page) = [''France'', ''United States'']
   \<and> fst (getWeeklyDigest ''2025-01-02'' example_db) = Some example_weekly_page
   \<and> sorted (map w_country_name (w_countries example_weekly_page))
   \<and> map w_country_name (w_countries example_weekly_page) = [''France'', ''United States'']"
proof -
  note t = page_countries_are_the_matching_rows
    [of example_db example_page "''2025-01-02''" "''2025-01-02''" example_weekly_page]
  have 1: "sorted (map country_name (countries example_page))"
    using t example_by_date by blast
  have 2: "sorted (map w_country_name (w_countries example_weekly_page))"
    using t example_weekly by blast
  have 3: "map country_name (countries example_page) = [''France'', ''United States'']"
    by (simp add: example_page_def)
  have 4: "map w_country_name (w_countries example_weekly_page) = [''France'', ''United States'']"
    by (simp add: example_weekly_page_def)
  from 1 2 3 4 example_latest example_by_date example_weekly show ?thesis by blast
qed

text \<open>
  Claim C3 as stated fails: in the example the releases of France come back as
  \<open>Budget\<close>, \<open>Aid\<close>, the order of their ids, which is the ascending order of none
  of their texts.
\<close>

theorem releases_not_ordered_by_name:
  "fst (getLatestDigest example_db) = Some example_page
   \<and> fst (getDigestByDate ''2025-01-02'' example_db) = Some example_page
   \<and> map rs_title (releases (hd (countries example_page))) = [''Budget'', ''Aid'']
   \<and> \<not> sorted (map rs_title (releases (hd (countries example_page))))
   \<and> \<not> sorted (map rs_summary (releases (hd (countries example_page))))
   \<and> \<not> sorted (map rs_original_url (releases (hd (countries example_page))))
   \<and> \<not> sorted (map rs_release_id (releases (hd (countries example_page))))"
proof -
  have "map rs_title (releases (hd (countries example_page))) = [''Budget'', ''Aid'']"
    and "\<not> sorted (map rs_title (releases (hd (countries example_page))))"
    and "\<not> sorted (map rs_summary (releases (hd (countries example_page))))"
    and "\<not> sorted (map rs_original_url (releases (hd (countries example_page))))"
    and "\<not> sorted (map rs_release_id (releases (hd (countries example_page))))"
    by (simp_all add: example_page_def)
  with example_latest example_by_date show ?thesis by blast
qed

text \<open>
  Claim C3, amended. For every country of a page returned by \<open>getLatestDigest\<close> or
  \<open>getDigestByDate\<close>, the releases are the rows of \<open>release_summary\<close> whose
  \<open>country_digest_id\<close> is the id that the page gives the country, each row once, taken in
  ascending order of their stored \<open>id\<close> and handed over as JavaScript reads them; the
  ids of the releases of a country, as the page gives them, ascend as well.
\<close>

theorem releases_ordered_by_id:
  "fst (getLatestDigest file) = Some p \<or> fst (getDigestByDate d file) = Some p \<Longrightarrow>
     \<forall>c \<in> set (countries p).
        (\<exists>rows.
            mset rows =
              mset (filter (\<lambda>r. rs_country_digest_id r = id_c c) (release_summary file))
          \<and> sorted (map rs_id rows)
          \<and> releases c = map js_release rows)
      \<and> sorted (map rs_id (releases c))"
proof
  fix c
  assume a: "fst (getLatestDigest file) = Some p \<or> fst (getDigestByDate d file) = Some p"
    and c: "c \<in> set (countries p)"
  let ?rows = "sort_key rs_id
      (filter (\<lambda>r. rs_country_digest_id r = id_c c) (release_summary file))"
  have p: "p = fst (buildDigestPage (getDb file) (digest p))"
    using a by (rule daily_page_has_row)
  have "c \<in> set (countries (fst (buildDigestPage (getDb file) (digest p))))"
    using c p by simp
  then have "releases c = map js_release (sql_release_summary (id_c c) file)"
    by (auto simp: page_of_row)
  then have r: "releases c = map js_release ?rows"
    by (simp add: sql_release_summary_def order_by_def)
  have s: "sorted (map rs_id ?rows)" by (rule sorted_sort_key)
  have m: "mset ?rows =
      mset (filter (\<lambda>r. rs_country_digest_id r = id_c c) (release_summary file))"
    by simp
  have "map rs_id (releases c) = map js_number (map rs_id ?rows)"
    by (simp add: r comp_def)
  then have o: "sorted (map rs_id (releases c))"
    using sorted_map_js_number [OF s] by simp
  from m s r have "\<exists>rows.
            mset rows =
              mset (filter (\<lambda>r. rs_country_digest_id r = id_c c) (release_summary file))
          \<and> sorted (map rs_id rows)
          \<and> releases c = map js_release rows"
    by blast
  with o show "(\<exists>rows.
            mset rows =
              mset (filter (\<lambda>r. rs_country_digest_id r = id_c c) (release_summary file))
          \<and> sorted (map rs_id rows)
          \<and> releases c = map js_release rows)
      \<and> sorted (map rs_id (releases c))"
    by simp
qed

theorem releases_ordered_by_id_witness:
  "fst (getDigestByDate ''2025-01-02'' example_db) = Some example_page
   \<and> sorted (map rs_id (releases (hd (countries example_page))))
   \<and> map rs_id (releases (hd (countries example_page))) = [1, 2]"
proof -
  have h: "fst (getLatestDigest example_db) = Some example_page
      \<or> fst (getDigestByDate ''2025-01-02'' example_db) = Some example_page"
    using example_by_date by simp
  have m: "hd (countries example_page) \<in> set (countries example_page)"
    by (simp add: example_page_def)
  have "sorted (map rs_id (releases (hd (countries example_page))))"
    using releases_ordered_by_id [OF h] m by blast
  moreover have "map rs_id (releases (hd (countries example_page))) = [1, 2]"
    by (simp add: example_page_def)
  ultimately show ?thesis using example_by_date by blast
qed

text \<open>
  Claim C4. \<open>getAllDigestDates\<close> returns the dates of \<open>daily_digest\<close>, each as often
  as it is stored, in descending order; \<open>getAllWeeklyDates\<close> does the same with the
  \<open>week_end\<close> values of \<open>weekly_digest\<close>.
\<close>

theorem all_dates_descending:
  "mset (fst (getAllDigestDates file)) = mset (map dd_date (daily_digest file))
   \<and> set (fst (getAllDigestDates file)) = dd_date ` set (daily_digest file)
   \<and> sorted_wrt (\<lambda>a b. b \<le> a) (fst (getAllDigestDates file))
   \<and> mset (fst (getAllWeeklyDates file)) = mset (map wd_week_end (weekly_digest file))
   \<and> set (fst (getAllWeeklyDates file)) = wd_week_end ` set (weekly_digest file)
   \<and> sorted_wrt (\<lambda>a b. b \<le> a) (fst (getAllWeeklyDates file))"
proof -
  have d: "fst (getAllDigestDates file)
      = rev (map dd_date (sort_key dd_date (rev (daily_digest file))))"
    by (simp add: getAllDigestDates_def stmt_all_def sql_all_daily_def order_by_desc_def
        getDb_def rev_map comp_def)
  have w: "fst (getAllWeeklyDates file)
      = rev (map wd_week_end (sort_key wd_week_end (rev (weekly_digest file))))"
    by (simp add: getAllWeeklyDates_def stmt_all_def sql_all_weekly_def order_by_desc_def
        getDb_def rev_map comp_def)
  have sd: "sorted_wrt (\<lambda>a b. b \<le> a)
      (rev (map dd_date (sort_key dd_date (rev (daily_digest file)))))"
    using sorted_sort_key [of dd_date "rev (daily_digest file)"] by (simp add: sorted_wrt_rev)
  have sw: "sorted_wrt (\<lambda>a b. b \<le> a)
      (rev (map wd_week_end (sort_key wd_week_end (rev (weekly_digest file)))))"
    using sorted_sort_key [of wd_week_end "rev (weekly_digest file)"] by (simp add: sorted_wrt_rev)
  show ?thesis
    unfolding d w using sd sw by simp
qed




text \<open>
  Claim C7. \<open>COUNTRY_NAMES\<close> has 31 entries with 31 different codes, among them
  \<open>EU\<close>, \<open>UN\<close> and \<open>WHO\<close>, and \<open>COUNTRY_FLAGS\<close> is defined on the same codes: a
  code has a display name exactly when it has a flag.
\<close>

theorem country_tables_cover_the_same_codes:
  "length COUNTRY_NAMES = 31
   \<and> distinct (map fst COUNTRY_NAMES)
   \<and> card (dom (map_of COUNTRY_NAMES)) = 31
   \<and> ''EU'' \<in> dom (map_of COUNTRY_NAMES)
   \<and> ''UN'' \<in> dom (map_of COUNTRY_NAMES)
   \<and> ''WHO'' \<in> dom (map_of COUNTRY_NAMES)
   \<and> map fst COUNTRY_FLAGS = map fst COUNTRY_NAMES
   \<and> dom (map_of COUNTRY_FLAGS) = dom (map_of COUNTRY_NAMES)"
proof -
  have l: "length COUNTRY_NAMES = 31" by (simp add: COUNTRY_NAMES_def)
  have d: "distinct (map fst COUNTRY_NAMES)" by (simp add: COUNTRY_NAMES_def)
  have k: "map fst COUNTRY_FLAGS = map fst COUNTRY_NAMES"
    by (simp add: COUNTRY_NAMES_def COUNTRY_FLAGS_def)
  have dn: "dom (map_of COUNTRY_NAMES) = set (map fst COUNTRY_NAMES)"
    by (simp add: dom_map_of_conv_image_fst)
  have df: "dom (map_of COUNTRY_FLAGS) = set (map fst COUNTRY_FLAGS)"
    by (simp add: dom_map_of_conv_image_fst)
  have c: "card (dom (map_of COUNTRY_NAMES)) = 31"
    unfolding dn using distinct_card [OF d] l by simp
  have e: "''EU'' \<in> dom (map_of COUNTRY_NAMES) \<and> ''UN'' \<in> dom (map_of COUNTRY_NAMES)
      \<and> ''WHO'' \<in> dom (map_of COUNTRY_NAMES)"
    unfolding dn by (simp add: COUNTRY_NAMES_def)
  from l d c e k dn df show ?thesis by simp
qed

text \<open>
  Claim C8. When no daily digest is stored for the requested date, the daily image
  route answers with status 404 and generates no image; the weekly route does the same
  when no weekly digest ends on the requested date.
\<close>

theorem og_routes_answer_404_without_digest:
  "((\<forall>r \<in> set (daily_digest file). dd_date r \<noteq> sql_text e date) \<longrightarrow>
      status (fst (fst (GET_daily e date file))) = 404
    \<and> snd (fst (GET_daily e date file)) = [])
   \<and> ((\<forall>r \<in> set (weekly_digest file). wd_week_end r \<noteq> sql_text e date) \<longrightarrow>
      status (fst (fst (GET_weekly e date file))) = 404
    \<and> snd (fst (GET_weekly e date file)) = [])"
proof (intro conjI impI)
  assume "\<forall>r \<in> set (daily_digest file). dd_date r \<noteq> sql_text e date"
  then have "find (\<lambda>r. dd_date r = sql_text e date) (daily_digest file) = None"
    by (simp add: find_None_iff)
  then have n: "fst (getDigestByDate (sql_text e date) file) = None"
    by (simp add: getDigestByDate_find)
  then show "status (fst (fst (GET_daily e date file))) = 404"
    by (cases "getDigestByDate (sql_text e date) file") (simp add: GET_daily_def Response_new_def)
  from n show "snd (fst (GET_daily e date file)) = []"
    by (cases "getDigestByDate (sql_text e date) file") (simp add: GET_daily_def)
next
  assume "\<forall>r \<in> set (weekly_digest file). wd_week_end r \<noteq> sql_text e date"
  then have "find (\<lambda>r. wd_week_end r = sql_text e date) (weekly_digest file) = None"
    by (simp add: find_None_iff)
  then have n: "fst (getWeeklyDigest (sql_text e date) file) = None"
    by (simp add: getWeeklyDigest_find)
  then show "status (fst (fst (GET_weekly e date file))) = 404"
    by (cases "getWeeklyDigest (sql_text e date) file") (simp add: GET_weekly_def Response_new_def)
  from n show "snd (fst (GET_weekly e date file)) = []"
    by (cases "getWeeklyDigest (sql_text e date) file") (simp add: GET_weekly_def)
qed

theorem og_routes_404_witness:
  "sql_text example_env (js_lit ''2025-02-30'') = ''2025-02-30''
   \<and> ''2025-02-30'' \<notin> set (map dd_date (daily_digest example_db))
   \<and> status (fst (fst (GET_daily example_env (js_lit ''2025-02-30'') example_db))) = 404
   \<and> snd (fst (GET_daily example_env (js_lit ''2025-02-30'') example_db)) = []
   \<and> ''2025-02-30'' \<notin> set (map wd_week_end (weekly_digest example_db))
   \<and> status (fst (fst (GET_weekly example_env (js_lit ''2025-02-30'') example_db))) = 404
   \<and> snd (fst (GET_weekly example_env (js_lit ''2025-02-30'') example_db)) = []"
proof -
  have s: "sql_text example_env (js_lit ''2025-02-30'') = ''2025-02-30''"
    by code_simp
  have 1: "''2025-02-30'' \<notin> set (map dd_date (daily_digest example_db))"
    by (simp add: example_db_def)
  have 2: "''2025-02-30'' \<notin> set (map wd_week_end (weekly_digest example_db))"
    by (simp add: example_db_def)
  have 3: "\<forall>r \<in> set (daily_digest example_db). dd_date r \<noteq> sql_text example_env (js_lit ''2025-02-30'')"
    unfolding s by (simp add: example_db_def)
  have 4: "\<forall>r \<in> set (weekly_digest example_db). wd_week_end r \<noteq> sql_text example_env (js_lit ''2025-02-30'')"
    unfolding s by (simp add: example_db_def)
  from og_routes_answer_404_without_digest [of example_db example_env "js_lit ''2025-02-30''"] 3 4
  have "status (fst (fst (GET_daily example_env (js_lit ''2025-02-30'') example_db))) = 404"
    and "snd (fst (GET_daily example_env (js_lit ''2025-02-30'') example_db)) = []"
    and "status (fst (fst (GET_weekly example_env (js_lit ''2025-02-30'') example_db))) = 404"
    and "snd (fst (GET_weekly example_env (js_lit ''2025-02-30'') example_db)) = []"
    by blast+
  with s 1 2 show ?thesis by blast
qed

text \<open>
  Claim C9. The texts of the image are the site's name, the headline, the description,
  the date label and the site's address. A headline of at most 90 code units is placed
  as it is, a longer one as its first 87 code units followed by \<open>...\<close>; a description
  of at most 140 code units is placed as it is, a longer one as its first 137 code units
  followed by \<open>...\<close>. Neither text is ever longer than its bound.
\<close>

theorem og_texts_are_truncated:
  "texts (og_markup headline description dateLabel) =
     [js_lit ''What Is The Govt Saying'',
      (if length headline \<le> 90 then headline else take 87 headline @ js_lit ''...''),
      (if length description \<le> 140 then description else take 137 description @ js_lit ''...''),
      dateLabel,
      js_lit ''whatisthegovtsaying.com'']
   \<and> length (if length headline \<le> 90 then headline else take 87 headline @ js_lit ''...'') \<le> 90
   \<and> length (if length description \<le> 140 then description
              else take 137 description @ js_lit ''...'') \<le> 140
   \<and> generateOgImage e headline description dateLabel =
       render e (og_markup headline description dateLabel)"
  by (simp add: og_markup_def generateOgImage_def js_lit_def Let_def)

section \<open>Properties of the previous and the next day\<close>

lemma lin_low:
  fixes q n A B C :: int
  assumes "4 * A \<le> q" "q - 31 \<le> 100 * B" "400 * C \<le> q + 368" "3652425 * q \<le> 10000 * n"
  shows "365 * q - 365 + A - B + C \<le> n"
  using assms by linarith

lemma lin_high:
  fixes q n A B C :: int
  assumes "q \<le> 4 * A" "100 * B \<le> q + 71" "q - 28 \<le> 400 * C" "10000 * n < 3652425 * q + 3652425"
  shows "n < 365 * q + 730 + A - B + C"
  using assms by linarith

lemma div_lower:
  fixes x k :: int
  assumes "0 < k"
  shows "x - (k - 1) \<le> k * (x div k)"
proof -
  have "x mod k < k" using assms by simp
  moreover have "k * (x div k) + x mod k = x" by (rule mult_div_mod_eq)
  ultimately show ?thesis by linarith
qed

lemma div_upper:
  fixes x k :: int
  assumes "0 < k"
  shows "k * (x div k) \<le> x"
proof -
  have "0 \<le> x mod k" using assms by simp
  moreover have "k * (x div k) + x mod k = x" by (rule mult_div_mod_eq)
  ultimately show ?thesis by linarith
qed

lemma div_step:
  fixes x k :: int
  assumes "0 < k"
  shows "(x + 1) div k = x div k + (if (x + 1) mod k = 0 then 1 else 0)"
proof (cases "x mod k = k - 1")
  case True
  have e0: "x + 1 = k * (x div k) + k"
    using True mult_div_mod_eq [of k x] by linarith
  have e: "x + 1 = k * (x div k + 1) + 0"
    unfolding e0 by (simp add: algebra_simps)
  have "(x + 1) div k = x div k + 1"
    by (rule int_div_pos_eq [OF e]) (use assms in simp_all)
  moreover have "(x + 1) mod k = 0"
    by (rule int_mod_pos_eq [OF e]) (use assms in simp_all)
  ultimately show ?thesis by simp
next
  case False
  have b: "0 \<le> x mod k" "x mod k < k" using assms by simp_all
  have e: "x + 1 = k * (x div k) + (x mod k + 1)" by simp
  have r: "0 \<le> x mod k + 1" "x mod k + 1 < k" using b False by simp_all
  have "(x + 1) div k = x div k"
    using e r by (rule int_div_pos_eq)
  moreover have "(x + 1) mod k = x mod k + 1"
    using e r by (rule int_mod_pos_eq)
  ultimately show ?thesis using b by simp
qed

lemma shift4: "(y - 1968) mod 4 = y mod (4::int)"
  using mod_mult_self2 [of y 4 "-492"] by simp

lemma shift100: "(y - 1900) mod 100 = y mod (100::int)"
  using mod_mult_self2 [of y 100 "-19"] by simp

lemma shift400: "(y - 1600) mod 400 = y mod (400::int)"
  using mod_mult_self2 [of y 400 "-4"] by simp

lemma leap_chain:
  fixes y :: int
  shows "y mod 400 = 0 \<Longrightarrow> y mod 100 = 0" and "y mod 100 = 0 \<Longrightarrow> y mod 4 = 0"
proof -
  show "y mod 400 = 0 \<Longrightarrow> y mod 100 = 0"
    using mod_mod_cancel [of 100 400 y] by simp
  show "y mod 100 = 0 \<Longrightarrow> y mod 4 = 0"
    using mod_mod_cancel [of 4 100 y] by simp
qed

lemma DaysInYear_if:
  "DaysInYear y = 365 + (if y mod 4 = 0 then 1 else 0) - (if y mod 100 = 0 then 1 else 0)
      + (if y mod 400 = 0 then 1 else 0)"
proof -
  define p4 where "p4 \<longleftrightarrow> y mod 4 = 0"
  define p100 where "p100 \<longleftrightarrow> y mod 100 = 0"
  define p400 where "p400 \<longleftrightarrow> y mod 400 = 0"
  have c: "p400 \<Longrightarrow> p100" "p100 \<Longrightarrow> p4"
    using leap_chain [of y] by (simp_all add: p4_def p100_def p400_def)
  have "DaysInYear y = (if \<not> p4 then 365 else if \<not> p100 then 366 else if \<not> p400 then 365 else 366)"
    by (simp add: DaysInYear_def p4_def p100_def p400_def)
  also have "\<dots> = 365 + (if p4 then 1 else 0) - (if p100 then 1 else 0) + (if p400 then 1 else 0)"
    using c by (cases p4; cases p100; cases p400) simp_all
  finally show ?thesis by (simp add: p4_def p100_def p400_def)
qed

lemma DayFromYear_next: "DayFromYear (y + 1) = DayFromYear y + DaysInYear y"
proof -
  have a: "(y - 1968) div 4 = (y - 1969) div 4 + (if y mod 4 = 0 then 1 else 0)"
    using div_step [of 4 "y - 1969"] by (simp add: shift4)
  have b: "(y - 1900) div 100 = (y - 1901) div 100 + (if y mod 100 = 0 then 1 else 0)"
    using div_step [of 100 "y - 1901"] by (simp add: shift100)
  have c: "(y - 1600) div 400 = (y - 1601) div 400 + (if y mod 400 = 0 then 1 else 0)"
    using div_step [of 400 "y - 1601"] by (simp add: shift400)
  have "DayFromYear (y + 1) =
      365 * (y - 1969) + (y - 1968) div 4 - (y - 1900) div 100 + (y - 1600) div 400"
    by (simp add: DayFromYear_def)
  also have "\<dots> = DayFromYear y + (365 + (if y mod 4 = 0 then 1 else 0)
      - (if y mod 100 = 0 then 1 else 0) + (if y mod 400 = 0 then 1 else 0))"
    unfolding a b c DayFromYear_def by (simp only: algebra_simps)
  finally show ?thesis by (simp only: DaysInYear_if)
qed

lemma DaysInYear_cases: "DaysInYear y = 365 \<or> DaysInYear y = 366"
  by (simp add: DaysInYear_def)

lemma DaysInYear_leap: "(DaysInYear y = 366) = leap_year y"
  by (auto simp: DaysInYear_def leap_year_def)

lemma DayFromYear_mono_aux: "0 \<le> k \<Longrightarrow> DayFromYear y + 365 * k \<le> DayFromYear (y + k)"
proof (induction k rule: int_ge_induct)
  case base
  show ?case by simp
next
  case (step i)
  have "DayFromYear (y + (i + 1)) = DayFromYear (y + i) + DaysInYear (y + i)"
    using DayFromYear_next [of "y + i"] by (simp add: add.assoc)
  with step DaysInYear_cases [of "y + i"] show ?case by auto
qed

lemma DayFromYear_mono: "y \<le> y' \<Longrightarrow> DayFromYear y \<le> DayFromYear y'"
  using DayFromYear_mono_aux [of "y' - y" y] by simp

lemma DayFromYear_strict: "y < y' \<Longrightarrow> DayFromYear y < DayFromYear y'"
  using DayFromYear_mono_aux [of "y' - y" y] by simp

lemma estimate_low:
  fixes n :: int
  shows "DayFromYear (1969 + (10000 * n) div 3652425) \<le> n"
proof -
  define q where "q = (10000 * n) div 3652425"
  have q: "3652425 * q \<le> 10000 * n"
    unfolding q_def by (rule div_upper) simp
  have a: "4 * (q div 4) \<le> q" by (rule div_upper) simp
  have b: "q - 31 \<le> 100 * ((q + 68) div 100)"
    using div_lower [of 100 "q + 68"] by simp
  have c: "400 * ((q + 368) div 400) \<le> q + 368" by (rule div_upper) simp
  have "DayFromYear (1969 + q) =
      365 * q - 365 + q div 4 - (q + 68) div 100 + (q + 368) div 400"
    by (simp add: DayFromYear_def add.commute)
  also have "\<dots> \<le> n" using a b c q by (rule lin_low)
  finally show ?thesis by (simp only: q_def)
qed

lemma estimate_high:
  fixes n :: int
  shows "n < DayFromYear (1972 + (10000 * n) div 3652425)"
proof -
  define q where "q = (10000 * n) div 3652425"
  have q: "10000 * n < 3652425 * q + 3652425"
    unfolding q_def using div_lower [of 3652425 "10000 * n"] by simp
  have a: "q \<le> 4 * ((q + 3) div 4)"
    using div_lower [of 4 "q + 3"] by simp
  have b: "100 * ((q + 71) div 100) \<le> q + 71" by (rule div_upper) simp
  have c: "q - 28 \<le> 400 * ((q + 371) div 400)"
    using div_lower [of 400 "q + 371"] by simp
  have "n < 365 * q + 730 + (q + 3) div 4 - (q + 71) div 100 + (q + 371) div 400"
    using a b c q by (rule lin_high)
  also have "\<dots> = DayFromYear (1972 + q)"
    by (simp add: DayFromYear_def add.commute)
  finally show ?thesis by (simp only: q_def)
qed

lemma YearFromTime_bounds:
  "DayFromYear (YearFromTime t) \<le> Day t \<and> Day t < DayFromYear (YearFromTime t + 1)"
proof -
  define e where "e = 1970 + (10000 * Day t) div 3652425"
  have lo: "DayFromYear (e - 1) \<le> Day t"
    using estimate_low [of "Day t"] by (simp add: e_def)
  have hi: "Day t < DayFromYear (e + 2)"
    using estimate_high [of "Day t"] by (simp add: e_def)
  have "YearFromTime t =
      (if DayFromYear (e + 1) \<le> Day t then e + 1 else if DayFromYear e \<le> Day t then e else e - 1)"
    by (simp add: YearFromTime_def e_def Let_def)
  with lo hi show ?thesis by (auto simp: add.assoc)
qed

lemma YearFromTime_unique:
  assumes "DayFromYear y \<le> Day t" "Day t < DayFromYear (y + 1)"
  shows "YearFromTime t = y"
proof (rule ccontr)
  assume ne: "YearFromTime t \<noteq> y"
  note b = YearFromTime_bounds [of t]
  show False
  proof (cases "YearFromTime t < y")
    case True
    then have "DayFromYear (YearFromTime t + 1) \<le> DayFromYear y"
      by (intro DayFromYear_mono) simp
    with assms b show False by linarith
  next
    case False
    with ne have "DayFromYear (y + 1) \<le> DayFromYear (YearFromTime t)"
      by (intro DayFromYear_mono) simp
    with assms b show False by linarith
  qed
qed

text \<open>
  \<open>YearFromTime\<close> is the year of the standard: the largest year that starts at or
  before the time.
\<close>

lemma YearFromTime_largest:
  "TimeFromYear (YearFromTime t) \<le> t \<and> (\<forall>y. TimeFromYear y \<le> t \<longrightarrow> y \<le> YearFromTime t)"
proof (intro conjI allI impI)
  have "msPerDay * (t div msPerDay) \<le> t" by (simp add: msPerDay_def)
  moreover have "msPerDay * DayFromYear (YearFromTime t) \<le> msPerDay * (t div msPerDay)"
    using YearFromTime_bounds [of t] by (simp add: Day_def msPerDay_def)
  ultimately show "TimeFromYear (YearFromTime t) \<le> t" by (simp add: TimeFromYear_def)
next
  fix y assume "TimeFromYear y \<le> t"
  then have "msPerDay * DayFromYear y \<le> t" by (simp add: TimeFromYear_def)
  then have "DayFromYear y \<le> Day t"
    unfolding Day_def msPerDay_def by linarith
  show "y \<le> YearFromTime t"
  proof (rule ccontr)
    assume "\<not> y \<le> YearFromTime t"
    then have "DayFromYear (YearFromTime t + 1) \<le> DayFromYear y"
      by (intro DayFromYear_mono) simp
    with \<open>DayFromYear y \<le> Day t\<close> YearFromTime_bounds [of t] show False by linarith
  qed
qed

lemma leap_days_cases: "leap_days y = 0 \<or> leap_days y = 1"
  by (simp add: leap_days_def)

lemma DaysInYear_leap_days: "DaysInYear y = 365 + leap_days y"
  using DaysInYear_cases [of y] by (auto simp: leap_days_def)

lemma days_in_month_leap_days:
  "days_in_month y m =
     (if m = 2 then 28 + leap_days y else if m = 4 \<or> m = 6 \<or> m = 9 \<or> m = 11 then 30 else 31)"
  by (simp add: days_in_month_def leap_days_def DaysInYear_leap)

lemma MakeDay_in_year:
  assumes "1 \<le> m" "m \<le> 12"
  shows "MakeDay y (m - 1) d = DayFromYear y + DaysBeforeMonth (m - 1) (leap_days y) + d - 1"
proof -
  have "(m - 1) div 12 = 0" "(m - 1) mod 12 = m - 1"
    using assms by simp_all
  then show ?thesis by (simp add: MakeDay_def leap_days_def Let_def)
qed

lemma noon:
  assumes "t = MakeDate n 43200000"
  shows "Day t = n" and "TimeWithinDay t = 43200000"
proof -
  have e: "t = msPerDay * n + 43200000"
    using assms by (simp add: MakeDate_def)
  show "Day t = n"
    unfolding Day_def by (rule int_div_pos_eq [OF e]) (simp_all add: msPerDay_def)
  show "TimeWithinDay t = 43200000"
    unfolding TimeWithinDay_def by (rule int_mod_pos_eq [OF e]) (simp_all add: msPerDay_def)
qed

lemma month_cases:
  fixes m :: int
  assumes "1 \<le> m" "m \<le> 12"
  shows "m = 1 \<or> m = 2 \<or> m = 3 \<or> m = 4 \<or> m = 5 \<or> m = 6 \<or> m = 7 \<or> m = 8 \<or> m = 9
    \<or> m = 10 \<or> m = 11 \<or> m = 12"
  using assms by arith

lemma day_within_year_range:
  assumes "1 \<le> m" "m \<le> 12" "1 \<le> d" "d \<le> days_in_month y m"
  shows "0 \<le> DaysBeforeMonth (m - 1) (leap_days y) + d - 1"
    and "DaysBeforeMonth (m - 1) (leap_days y) + d - 1 < DaysInYear y"
  using month_cases [OF assms(1,2)] assms(3,4) leap_days_cases [of y]
  by (auto simp: days_in_month_leap_days DaysInYear_leap_days DaysBeforeMonth_def)

lemma month_and_date_of_day:
  assumes m: "1 \<le> m" "m \<le> 12" and d: "1 \<le> d" "d \<le> days_in_month y m"
    and w: "DayWithinYear t = DaysBeforeMonth (m - 1) (leap_days y) + d - 1"
    and l: "InLeapYear t = leap_days y"
  shows "MonthFromTime t = m - 1" and "DateFromTime t = d"
proof -
  have mo: "MonthFromTime t = m - 1"
    using month_cases [OF m] d leap_days_cases [of y]
    apply (elim disjE)
    apply (simp_all add: MonthFromTime_def w l DaysBeforeMonth_def Let_def days_in_month_leap_days)
    done
  show "MonthFromTime t = m - 1" by (rule mo)
  show "DateFromTime t = d"
    using month_cases [OF m]
    apply (elim disjE)
    apply (simp_all add: DateFromTime_def mo w l DaysBeforeMonth_def Let_def)
    done
qed

lemma civil_from_noon:
  assumes m: "1 \<le> m" "m \<le> 12" and d: "1 \<le> d" "d \<le> days_in_month y m"
    and t: "t = MakeDate (MakeDay y (m - 1) d) 43200000"
  shows "YearFromTime t = y" and "MonthFromTime t = m - 1" and "DateFromTime t = d"
proof -
  let ?w = "DaysBeforeMonth (m - 1) (leap_days y) + d - 1"
  have dt: "Day t = DayFromYear y + ?w"
    using noon(1) [OF t] MakeDay_in_year [OF m, of y d] by simp
  note r = day_within_year_range [OF m d]
  have y: "YearFromTime t = y"
  proof (rule YearFromTime_unique)
    show "DayFromYear y \<le> Day t" using dt r(1) by simp
    show "Day t < DayFromYear (y + 1)" using dt r(2) by (simp add: DayFromYear_next)
  qed
  have w: "DayWithinYear t = ?w" by (simp add: DayWithinYear_def y dt)
  have l: "InLeapYear t = leap_days y" by (simp add: InLeapYear_def leap_days_def y)
  show "YearFromTime t = y" by (rule y)
  show "MonthFromTime t = m - 1" by (rule month_and_date_of_day(1) [OF m d w l])
  show "DateFromTime t = d" by (rule month_and_date_of_day(2) [OF m d w l])
qed

lemma DaysBeforeMonth_next:
  assumes "1 \<le> m" "m < 12"
  shows "DaysBeforeMonth m (leap_days y) = DaysBeforeMonth (m - 1) (leap_days y) + days_in_month y m"
  using month_cases [of m] assms
  by (auto simp: DaysBeforeMonth_def days_in_month_leap_days)

lemma next_day_MakeDay:
  assumes m: "1 \<le> m" "m \<le> 12" and d: "1 \<le> d" "d \<le> days_in_month y m"
    and n: "next_day (y, m, d) = (y', m', d')"
  shows "1 \<le> m' \<and> m' \<le> 12 \<and> 1 \<le> d' \<and> d' \<le> days_in_month y' m'
    \<and> MakeDay y' (m' - 1) d' = MakeDay y (m - 1) d + 1"
proof (cases "d < days_in_month y m")
  case True
  with n have "y' = y" "m' = m" "d' = d + 1" by (simp_all add: next_day_def)
  with m d True show ?thesis by (simp add: MakeDay_in_year)
next
  case False
  with d have dd: "d = days_in_month y m" by simp
  show ?thesis
  proof (cases "m < 12")
    case True
    with n False have e: "y' = y" "m' = m + 1" "d' = 1" by (simp_all add: next_day_def)
    have "1 \<le> days_in_month y (m + 1)"
      using leap_days_cases [of y] by (auto simp: days_in_month_leap_days)
    moreover have "MakeDay y (m + 1 - 1) 1 = MakeDay y (m - 1) d + 1"
      using m True MakeDay_in_year [of "m + 1" y 1] MakeDay_in_year [of m y d]
        DaysBeforeMonth_next [of m y] dd by simp
    ultimately show ?thesis using e m True by simp
  next
    case False
    with m have m12: "m = 12" by simp
    with dd have d31: "d = 31" by (simp add: days_in_month_leap_days)
    from n m12 d31 have e: "y' = y + 1" "m' = 1" "d' = 1"
      by (simp_all add: next_day_def days_in_month_leap_days)
    have "MakeDay (y + 1) (1 - 1) 1 = MakeDay y (12 - 1) 31 + 1"
      using MakeDay_in_year [of 1 "y + 1" 1] MakeDay_in_year [of 12 y 31]
      by (simp add: DaysBeforeMonth_def DayFromYear_next DaysInYear_leap_days)
    then show ?thesis using e m12 d31 by (simp add: days_in_month_leap_days)
  qed
qed

lemma prev_day_MakeDay:
  assumes m: "1 \<le> m" "m \<le> 12" and d: "1 \<le> d" "d \<le> days_in_month y m"
    and n: "prev_day (y, m, d) = (y', m', d')"
  shows "1 \<le> m' \<and> m' \<le> 12 \<and> 1 \<le> d' \<and> d' \<le> days_in_month y' m'
    \<and> MakeDay y' (m' - 1) d' = MakeDay y (m - 1) d - 1"
proof (cases "1 < d")
  case True
  with n have "y' = y" "m' = m" "d' = d - 1" by (simp_all add: prev_day_def)
  with m d True show ?thesis by (simp add: MakeDay_in_year)
next
  case False
  with d have d1: "d = 1" by simp
  show ?thesis
  proof (cases "1 < m")
    case True
    with n d1 have e: "y' = y" "m' = m - 1" "d' = days_in_month y (m - 1)"
      by (auto simp: prev_day_def)
    have "1 \<le> days_in_month y (m - 1)"
      using leap_days_cases [of y] by (auto simp: days_in_month_leap_days)
    moreover have "MakeDay y (m - 1 - 1) (days_in_month y (m - 1)) = MakeDay y (m - 1) 1 - 1"
      using m True MakeDay_in_year [of "m - 1" y "days_in_month y (m - 1)"] MakeDay_in_year [of m y 1]
        DaysBeforeMonth_next [of "m - 1" y] by simp
    ultimately show ?thesis using e m True d1 by simp
  next
    case False
    with m have m1: "m = 1" by simp
    from n m1 d1 have e: "y' = y - 1" "m' = 12" "d' = 31"
      by (simp_all add: prev_day_def)
    have "MakeDay (y - 1) (12 - 1) 31 = MakeDay y (1 - 1) 1 - 1"
      using MakeDay_in_year [of 12 "y - 1" 31] MakeDay_in_year [of 1 y 1]
        DayFromYear_next [of "y - 1"]
      by (simp add: DaysBeforeMonth_def DaysInYear_leap_days)
    then show ?thesis using e m1 d1 by (simp add: days_in_month_leap_days)
  qed
qed

lemma prev_next_day:
  assumes "1 \<le> m" "m \<le> 12" "1 \<le> d" "d \<le> days_in_month y m"
  shows "prev_day (next_day (y, m, d)) = (y, m, d)"
  using assms leap_days_cases [of y]
  by (auto simp: prev_day_def next_day_def days_in_month_leap_days)

lemma next_prev_day:
  assumes "1 \<le> m" "m \<le> 12" "1 \<le> d" "d \<le> days_in_month y m"
  shows "next_day (prev_day (y, m, d)) = (y, m, d)"
  using assms leap_days_cases [of y] month_cases [of m]
  by (auto simp: prev_day_def next_day_def days_in_month_leap_days)

lemma length_digits: "length (digits k n) = k"
  by (induction k arbitrary: n) simp_all

lemma number_from_append:
  "number_from acc (xs @ ys) =
     (case number_from acc xs of None \<Rightarrow> None | Some a \<Rightarrow> number_from a ys)"
  by (induction xs arbitrary: acc) simp_all

lemma digit_char:
  fixes d :: nat
  assumes "d < 10"
  shows "is_digit (char_of (48 + d))" and "of_char (char_of (48 + d)) - 48 = d"
  using assms by (simp_all add: is_digit_def)

lemma number_digits: "number (digits k n) = Some (n mod 10 ^ k)"
  unfolding number_def
proof (induction k arbitrary: n)
  case 0
  show ?case by simp
next
  case (Suc k)
  have "n mod (10 * 10 ^ k) = 10 * (n div 10 mod 10 ^ k) + n mod 10"
    by (rule mod_mult2_eq)
  then show ?case
    by (simp add: number_from_append Suc digit_char)
qed

lemma number_digits_small: "n < 10 ^ k \<Longrightarrow> number (digits k n) = Some n"
  by (simp add: number_digits)

lemma list4: "length xs = 4 \<Longrightarrow> \<exists>a b c d. xs = [a, b, c, d]"
  by (auto simp: length_Suc_conv numeral_eq_Suc)

lemma list2: "length xs = 2 \<Longrightarrow> \<exists>a b. xs = [a, b]"
  by (auto simp: length_Suc_conv numeral_eq_Suc)

lemma number_12: "number ''12'' = Some 12" and number_00: "number ''00'' = Some 0"
  by (simp_all add: number_def is_digit_def)

lemma digit_not_sign: "is_digit c \<Longrightarrow> c \<noteq> CHR ''+'' \<and> c \<noteq> CHR ''-''"
  by (auto simp: is_digit_def)

lemma time_field_noon: "time_field ''T12:00:00Z'' = Some 43200000"
  by (simp add: time_field_def number_12 number_00 MakeTime_def)

lemma Date_new_iso:
  assumes "length Y = 4" "length M = 2" "length D = 2"
    and "number Y = Some y" "number M = Some m" "number D = Some d"
    and "1 \<le> m" "m \<le> 12" "1 \<le> d" "d \<le> 31"
  shows "Date_new (Y @ ''-'' @ M @ ''-'' @ D @ ''T12:00:00Z'') =
    TimeClip (MakeDate (MakeDay (int y) (int m - 1) (int d)) 43200000)"
proof -
  from list4 [OF assms(1)] obtain a b c e where Y: "Y = [a, b, c, e]" by blast
  from list2 [OF assms(2)] obtain f g where M: "M = [f, g]" by blast
  from list2 [OF assms(3)] obtain h i where D: "D = [h, i]" by blast
  have "is_digit a"
    using assms(4) unfolding Y by (simp add: number_def split: if_splits)
  then have a: "a \<noteq> CHR ''+''" "a \<noteq> CHR ''-''"
    using digit_not_sign by blast+
  have yf: "year_field [a, b, c, e, CHR ''-'', f, g, CHR ''-'', h, i]
      = Some (int y, [CHR ''-'', f, g, CHR ''-'', h, i])"
    using assms(4) a unfolding Y by (simp add: year_field_def)
  have mf: "month_day_fields [CHR ''-'', f, g, CHR ''-'', h, i] = Some (m, d)"
    using assms(5-10) unfolding M D by (simp add: month_day_fields_def)
  show ?thesis
    unfolding Y M D by (simp add: Date_new_def yf mf time_field_noon)
qed

lemma take10_toISOString:
  assumes "YearFromTime t = y" "MonthFromTime t = m - 1" "DateFromTime t = d"
    and "0 \<le> y" "y \<le> 9999"
  shows "take 10 (toISOString t) = iso_date (y, m, d)"
  using assms by (simp add: toISOString_def iso_date_def Let_def length_digits)

lemma DayFromYear_0: "DayFromYear 0 = - 719528" and DayFromYear_10000: "DayFromYear 10000 = 2932897"
  by (simp_all add: DayFromYear_def)

lemma TimeClip_noon:
  assumes y: "0 \<le> y" "y \<le> 9999" and m: "1 \<le> m" "m \<le> 12" and d: "1 \<le> d" "d \<le> days_in_month y m"
  shows "TimeClip (MakeDate (MakeDay y (m - 1) d) 43200000) =
    Some (MakeDate (MakeDay y (m - 1) d) 43200000)"
proof -
  let ?w = "DaysBeforeMonth (m - 1) (leap_days y) + d - 1"
  note r = day_within_year_range [OF m d]
  have lo: "- 719528 \<le> DayFromYear y"
    using DayFromYear_mono [of 0 y] y by (simp add: DayFromYear_0)
  have "DayFromYear (y + 1) \<le> DayFromYear 10000"
    using y by (intro DayFromYear_mono) simp
  then have hi: "DayFromYear y + DaysInYear y \<le> 2932897"
    by (simp add: DayFromYear_next DayFromYear_10000)
  have n: "MakeDay y (m - 1) d = DayFromYear y + ?w"
    using MakeDay_in_year [OF m, of y d] by simp
  have "- 719528 \<le> MakeDay y (m - 1) d" "MakeDay y (m - 1) d \<le> 2932897"
    using lo hi r n by simp_all
  then show ?thesis
    by (simp add: TimeClip_def MakeDate_def msPerDay_def)
qed

lemma Date_new_valid:
  assumes y: "0 \<le> y" "y \<le> 9999" and m: "1 \<le> m" "m \<le> 12" and d: "1 \<le> d" "d \<le> days_in_month y m"
  shows "Date_new (iso_date (y, m, d) @ ''T12:00:00Z'') =
    Some (MakeDate (MakeDay y (m - 1) d) 43200000)"
proof -
  have d31: "d \<le> 31"
    using d(2) leap_days_cases [of y] by (auto simp: days_in_month_leap_days split: if_splits)
  have ny: "number (digits 4 (nat y)) = Some (nat y)"
    using y by (intro number_digits_small) simp
  have nm: "number (digits 2 (nat m)) = Some (nat m)"
    using m by (intro number_digits_small) simp
  have nd: "number (digits 2 (nat d)) = Some (nat d)"
    using d d31 by (intro number_digits_small) simp
  have "Date_new (digits 4 (nat y) @ ''-'' @ digits 2 (nat m) @ ''-'' @ digits 2 (nat d) @ ''T12:00:00Z'')
      = TimeClip (MakeDate (MakeDay (int (nat y)) (int (nat m) - 1) (int (nat d))) 43200000)"
    using m d d31 by (intro Date_new_iso [OF _ _ _ ny nm nd]) (simp_all add: length_digits)
  then show ?thesis
    using y m d TimeClip_noon [OF y m d] by (simp add: iso_date_def)
qed

lemma MakeDay_shift: "MakeDay y mo (d + k) = MakeDay y mo d + k"
  by (simp add: MakeDay_def Let_def)

lemma nextDate_valid:
  assumes v: "valid_date (y, m, d)" and ne: "(y, m, d) \<noteq> (9999, 12, 31)"
  shows "nextDate (iso_date (y, m, d)) = Some (iso_date (next_day (y, m, d)))
    \<and> valid_date (next_day (y, m, d))"
proof -
  from v have y: "0 \<le> y" "y \<le> 9999" and m: "1 \<le> m" "m \<le> 12"
    and d: "1 \<le> d" "d \<le> days_in_month y m"
    by (simp_all add: valid_date_def)
  obtain y' m' d' where n: "next_day (y, m, d) = (y', m', d')"
    by (cases "next_day (y, m, d)") auto
  note s = next_day_MakeDay [OF m d n]
  from s have m': "1 \<le> m'" "m' \<le> 12" and d': "1 \<le> d'" "d' \<le> days_in_month y' m'"
    and md: "MakeDay y' (m' - 1) d' = MakeDay y (m - 1) d + 1"
    by simp_all
  have y': "0 \<le> y'" "y' \<le> 9999"
    using n y m d ne by (auto simp: next_day_def days_in_month_leap_days split: if_splits)
  define t where "t = MakeDate (MakeDay y (m - 1) d) 43200000"
  define t' where "t' = MakeDate (MakeDay y' (m' - 1) d') 43200000"
  have p: "Date_new (iso_date (y, m, d) @ ''T12:00:00Z'') = Some t"
    unfolding t_def by (rule Date_new_valid [OF y m d])
  note c = civil_from_noon [OF m d t_def]
  have "setUTCDate t (DateFromTime t + 1) = TimeClip t'"
    by (simp add: setUTCDate_def c noon(2) [OF t_def] MakeDay_shift md t'_def)
  also have "\<dots> = Some t'"
    unfolding t'_def by (rule TimeClip_noon [OF y' m' d'])
  finally have u: "setUTCDate t (DateFromTime t + 1) = Some t'" .
  note c' = civil_from_noon [OF m' d' t'_def]
  have "take 10 (toISOString t') = iso_date (y', m', d')"
    by (rule take10_toISOString [OF c' y'])
  then have "nextDate (iso_date (y, m, d)) = Some (iso_date (y', m', d'))"
    by (simp add: nextDate_def p u)
  moreover have "valid_date (y', m', d')"
    using y' m' d' by (simp add: valid_date_def)
  ultimately show ?thesis by (simp add: n)
qed

lemma prevDate_valid:
  assumes v: "valid_date (y, m, d)" and ne: "(y, m, d) \<noteq> (0, 1, 1)"
  shows "prevDate (iso_date (y, m, d)) = Some (iso_date (prev_day (y, m, d)))
    \<and> valid_date (prev_day (y, m, d))"
proof -
  from v have y: "0 \<le> y" "y \<le> 9999" and m: "1 \<le> m" "m \<le> 12"
    and d: "1 \<le> d" "d \<le> days_in_month y m"
    by (simp_all add: valid_date_def)
  obtain y' m' d' where n: "prev_day (y, m, d) = (y', m', d')"
    by (cases "prev_day (y, m, d)") auto
  note s = prev_day_MakeDay [OF m d n]
  from s have m': "1 \<le> m'" "m' \<le> 12" and d': "1 \<le> d'" "d' \<le> days_in_month y' m'"
    and md: "MakeDay y' (m' - 1) d' = MakeDay y (m - 1) d - 1"
    by simp_all
  have y': "0 \<le> y'" "y' \<le> 9999"
    using n y m d ne by (auto simp: prev_day_def split: if_splits)
  define t where "t = MakeDate (MakeDay y (m - 1) d) 43200000"
  define t' where "t' = MakeDate (MakeDay y' (m' - 1) d') 43200000"
  have p: "Date_new (iso_date (y, m, d) @ ''T12:00:00Z'') = Some t"
    unfolding t_def by (rule Date_new_valid [OF y m d])
  note c = civil_from_noon [OF m d t_def]
  have "MakeDay y (m - 1) (d - 1) = MakeDay y (m - 1) d - 1"
    using MakeDay_shift [of y "m - 1" d "- 1"] by simp
  then have "setUTCDate t (DateFromTime t - 1) = TimeClip t'"
    by (simp add: setUTCDate_def c noon(2) [OF t_def] md t'_def)
  also have "\<dots> = Some t'"
    unfolding t'_def by (rule TimeClip_noon [OF y' m' d'])
  finally have u: "setUTCDate t (DateFromTime t - 1) = Some t'" .
  note c' = civil_from_noon [OF m' d' t'_def]
  have "take 10 (toISOString t') = iso_date (y', m', d')"
    by (rule take10_toISOString [OF c' y'])
  then have "prevDate (iso_date (y, m, d)) = Some (iso_date (y', m', d'))"
    by (simp add: prevDate_def p u)
  moreover have "valid_date (y', m', d')"
    using y' m' d' by (simp add: valid_date_def)
  ultimately show ?thesis by (simp add: n)
qed

lemma calendar_examples:
  "valid_date (2024, 2, 29)"
  "next_day (2024, 2, 29) = (2024, 3, 1)"
  "prev_day (2024, 2, 29) = (2024, 2, 28)"
  "valid_date (9999, 12, 31)"
  "valid_date (0, 1, 1)"
  by (simp_all add: valid_date_def next_day_def prev_day_def days_in_month_def leap_year_def)

lemma digit_chars:
  "char_of (48 :: nat) = CHR ''0''" "char_of (49 :: nat) = CHR ''1''"
  "char_of (50 :: nat) = CHR ''2''" "char_of (51 :: nat) = CHR ''3''"
  "char_of (52 :: nat) = CHR ''4''" "char_of (53 :: nat) = CHR ''5''"
  "char_of (54 :: nat) = CHR ''6''" "char_of (55 :: nat) = CHR ''7''"
  "char_of (56 :: nat) = CHR ''8''" "char_of (57 :: nat) = CHR ''9''"
  by code_simp+

lemma digits_2: "digits 2 n = [char_of (48 + n div 10 mod 10), char_of (48 + n mod 10)]"
proof -
  have "digits (Suc (Suc 0)) n = [char_of (48 + n div 10 mod 10), char_of (48 + n mod 10)]"
    by simp
  then show ?thesis by (simp only: numeral_2_eq_2)
qed

lemma digits_3:
  "digits 3 n = [char_of (48 + n div 10 div 10 mod 10), char_of (48 + n div 10 mod 10),
                 char_of (48 + n mod 10)]"
proof -
  have "digits (Suc (Suc (Suc 0))) n =
      [char_of (48 + n div 10 div 10 mod 10), char_of (48 + n div 10 mod 10),
       char_of (48 + n mod 10)]"
    by simp
  then show ?thesis by (simp only: numeral_3_eq_3)
qed

lemma digits_4:
  "digits 4 n = [char_of (48 + n div 10 div 10 div 10 mod 10),
                 char_of (48 + n div 10 div 10 mod 10), char_of (48 + n div 10 mod 10),
                 char_of (48 + n mod 10)]"
proof -
  have e: "(4 :: nat) = Suc (Suc (Suc (Suc 0)))" by simp
  have "digits (Suc (Suc (Suc (Suc 0)))) n =
      [char_of (48 + n div 10 div 10 div 10 mod 10),
       char_of (48 + n div 10 div 10 mod 10), char_of (48 + n div 10 mod 10),
       char_of (48 + n mod 10)]"
    by simp
  then show ?thesis by (simp only: e)
qed

lemma digits_6:
  "digits 6 n = [char_of (48 + n div 10 div 10 div 10 div 10 div 10 mod 10),
                 char_of (48 + n div 10 div 10 div 10 div 10 mod 10),
                 char_of (48 + n div 10 div 10 div 10 mod 10),
                 char_of (48 + n div 10 div 10 mod 10), char_of (48 + n div 10 mod 10),
                 char_of (48 + n mod 10)]"
proof -
  have e: "(6 :: nat) = Suc (Suc (Suc (Suc (Suc (Suc 0)))))" by simp
  have "digits (Suc (Suc (Suc (Suc (Suc (Suc 0)))))) n =
      [char_of (48 + n div 10 div 10 div 10 div 10 div 10 mod 10),
       char_of (48 + n div 10 div 10 div 10 div 10 mod 10),
       char_of (48 + n div 10 div 10 div 10 mod 10),
       char_of (48 + n div 10 div 10 mod 10), char_of (48 + n div 10 mod 10),
       char_of (48 + n mod 10)]"
    by simp
  then show ?thesis by (simp only: e)
qed

lemmas digits_eval = digits_2 digits_3 digits_4 digits_6 digit_chars

lemma iso_examples:
  "iso_date (2024, 2, 29) = ''2024-02-29''"
  "iso_date (2024, 3, 1) = ''2024-03-01''"
  "iso_date (2024, 2, 28) = ''2024-02-28''"
  "iso_date (9999, 12, 31) = ''9999-12-31''"
  "iso_date (0, 1, 1) = ''0000-01-01''"
  by (simp_all add: iso_date_def digits_eval)

lemma last_day_steps:
  "Date_new ''9999-12-31T12:00:00Z'' = Some 253402257600000"
  "DateFromTime 253402257600000 = 31"
  "setUTCDate 253402257600000 32 = Some 253402344000000"
  "YearFromTime 253402344000000 = 10000"
  "MonthFromTime 253402344000000 = 0"
  "DateFromTime 253402344000000 = 1"
  by code_simp+

lemma first_day_steps:
  "Date_new ''0000-01-01T12:00:00Z'' = Some (- 62167176000000)"
  "DateFromTime (- 62167176000000) = 1"
  "setUTCDate (- 62167176000000) 0 = Some (- 62167262400000)"
  "YearFromTime (- 62167262400000) = - 1"
  "MonthFromTime (- 62167262400000) = 11"
  "DateFromTime (- 62167262400000) = 31"
  by code_simp+

lemma after_last_day_steps:
  "Date_new ''+010000-01T12:00:00Z'' = Some 253402344000000"
  "setUTCDate 253402344000000 0 = Some 253402257600000"
  "YearFromTime 253402257600000 = 9999"
  "MonthFromTime 253402257600000 = 11"
  by code_simp+

lemma before_first_day_steps:
  "Date_new ''-000001-12T12:00:00Z'' = Some (- 62169854400000)"
  "DateFromTime (- 62169854400000) = 1"
  "setUTCDate (- 62169854400000) 2 = Some (- 62169768000000)"
  "YearFromTime (- 62169768000000) = - 1"
  "MonthFromTime (- 62169768000000) = 11"
  "DateFromTime (- 62169768000000) = 2"
  by code_simp+

lemma nextDate_last_day: "nextDate ''9999-12-31'' = Some ''+010000-01''"
proof -
  have "take 10 (toISOString 253402344000000) = ''+010000-01''"
    by (simp add: toISOString_def last_day_steps digits_eval)
  then show ?thesis by (simp add: nextDate_def last_day_steps)
qed

lemma prevDate_first_day: "prevDate ''0000-01-01'' = Some ''-000001-12''"
proof -
  have "take 10 (toISOString (- 62167262400000)) = ''-000001-12''"
    by (simp add: toISOString_def first_day_steps digits_eval)
  then show ?thesis by (simp add: prevDate_def first_day_steps)
qed

lemma prevDate_after_last_day: "prevDate ''+010000-01'' = Some ''9999-12-31''"
proof -
  have "take 10 (toISOString 253402257600000) = ''9999-12-31''"
    by (simp add: toISOString_def after_last_day_steps last_day_steps digits_eval)
  then show ?thesis by (simp add: prevDate_def after_last_day_steps last_day_steps)
qed

lemma nextDate_before_first_day: "nextDate ''-000001-12'' = Some ''-000001-12''"
proof -
  have "take 10 (toISOString (- 62169768000000)) = ''-000001-12''"
    by (simp add: toISOString_def before_first_day_steps digits_eval)
  then show ?thesis by (simp add: nextDate_def before_first_day_steps)
qed

text \<open>
  Claim C10 as stated fails at the two ends of the four-digit years. The day after
  \<open>9999-12-31\<close> is in the year 10000, which \<open>toISOString\<close> writes with a sign and six
  digits, and the first ten characters, \<open>+010000-01\<close>, are what \<open>nextDate\<close> returns;
  the day before \<open>0000-01-01\<close> is in the year -1, and \<open>prevDate\<close> returns
  \<open>-000001-12\<close>. Neither is a \<open>YYYY-MM-DD\<close> string, and \<open>nextDate\<close> does not take the
  second back to \<open>0000-01-01\<close>.
\<close>

theorem next_day_leaves_four_digit_years:
  "valid_date (9999, 12, 31)
   \<and> iso_date (9999, 12, 31) = ''9999-12-31''
   \<and> nextDate ''9999-12-31'' = Some ''+010000-01''
   \<and> valid_date (0, 1, 1)
   \<and> iso_date (0, 1, 1) = ''0000-01-01''
   \<and> prevDate ''0000-01-01'' = Some ''-000001-12''
   \<and> nextDate ''-000001-12'' = Some ''-000001-12''"
  by (simp add: calendar_examples iso_examples nextDate_last_day prevDate_first_day
      nextDate_before_first_day)

text \<open>
  Claim C10, amended. For every valid calendar date \<open>c\<close> of the years 0000 to 9999,
  written \<open>YYYY-MM-DD\<close>: unless \<open>c\<close> is 9999-12-31, \<open>nextDate\<close> returns the
  \<open>YYYY-MM-DD\<close> string of the next calendar day, a valid date; unless \<open>c\<close> is
  0000-01-01, \<open>prevDate\<close> returns the \<open>YYYY-MM-DD\<close> string of the previous calendar
  day, a valid date; \<open>prevDate\<close> takes the result of \<open>nextDate\<close> back to \<open>c\<close>, for
  every \<open>c\<close>; and unless \<open>c\<close> is 0000-01-01, \<open>nextDate\<close> takes the result of
  \<open>prevDate\<close> back to \<open>c\<close>. Month and year boundaries and leap days are those of
  \<open>next_day\<close> and \<open>prev_day\<close>.
\<close>

theorem next_and_previous_day:
  "valid_date c \<Longrightarrow>
     (c \<noteq> (9999, 12, 31) \<longrightarrow>
        nextDate (iso_date c) = Some (iso_date (next_day c)) \<and> valid_date (next_day c))
   \<and> (c \<noteq> (0, 1, 1) \<longrightarrow>
        prevDate (iso_date c) = Some (iso_date (prev_day c)) \<and> valid_date (prev_day c))
   \<and> Option.bind (nextDate (iso_date c)) prevDate = Some (iso_date c)
   \<and> (c \<noteq> (0, 1, 1) \<longrightarrow> Option.bind (prevDate (iso_date c)) nextDate = Some (iso_date c))"
proof -
  assume v: "valid_date c"
  obtain y m d where c: "c = (y, m, d)" by (cases c) auto
  from v c have y: "0 \<le> y" "y \<le> 9999" and m: "1 \<le> m" "m \<le> 12"
    and d: "1 \<le> d" "d \<le> days_in_month y m"
    by (simp_all add: valid_date_def)
  have pn: "prev_day (next_day c) = c" unfolding c by (rule prev_next_day [OF m d])
  have np: "next_day (prev_day c) = c" unfolding c by (rule next_prev_day [OF m d])
  have n: "nextDate (iso_date c) = Some (iso_date (next_day c)) \<and> valid_date (next_day c)"
    if ne: "c \<noteq> (9999, 12, 31)"
    by (rule nextDate_valid [OF v [unfolded c] ne [unfolded c], folded c])
  have p: "prevDate (iso_date c) = Some (iso_date (prev_day c)) \<and> valid_date (prev_day c)"
    if ne: "c \<noteq> (0, 1, 1)"
    by (rule prevDate_valid [OF v [unfolded c] ne [unfolded c], folded c])
  have pn_date: "prevDate (iso_date (next_day c)) = Some (iso_date c)"
    if ne: "c \<noteq> (9999, 12, 31)"
  proof -
    obtain y' m' d' where c': "next_day c = (y', m', d')" by (cases "next_day c") auto
    have vn: "valid_date (next_day c)" using n [OF ne] by simp
    have "next_day c \<noteq> (0, 1, 1)"
    proof
      assume "next_day c = (0, 1, 1)"
      with pn have "c = prev_day (0, 1, 1)" by simp
      with y c show False by (simp add: prev_day_def)
    qed
    from prevDate_valid [OF vn [unfolded c'] this [unfolded c'], folded c']
    show ?thesis by (simp add: pn)
  qed
  have np_date: "nextDate (iso_date (prev_day c)) = Some (iso_date c)"
    if ne: "c \<noteq> (0, 1, 1)"
  proof -
    obtain y' m' d' where c': "prev_day c = (y', m', d')" by (cases "prev_day c") auto
    have vp: "valid_date (prev_day c)" using p [OF ne] by simp
    have "prev_day c \<noteq> (9999, 12, 31)"
    proof
      assume "prev_day c = (9999, 12, 31)"
      with np have "c = next_day (9999, 12, 31)" by simp
      with y c show False by (simp add: next_day_def days_in_month_def)
    qed
    from nextDate_valid [OF vp [unfolded c'] this [unfolded c'], folded c']
    show ?thesis by (simp add: np)
  qed
  have trip: "Option.bind (nextDate (iso_date c)) prevDate = Some (iso_date c)"
  proof (cases "c = (9999, 12, 31)")
    case True
    then show ?thesis
      by (simp add: iso_examples nextDate_last_day prevDate_after_last_day)
  next
    case False
    with n pn_date show ?thesis by simp
  qed
  from n p trip np_date show ?thesis by simp
qed

theorem next_and_previous_day_witness:
  "valid_date (2024, 2, 29)
   \<and> iso_date (2024, 2, 29) = ''2024-02-29''
   \<and> nextDate ''2024-02-29'' = Some ''2024-03-01''
   \<and> prevDate ''2024-02-29'' = Some ''2024-02-28''
   \<and> Option.bind (nextDate ''2024-02-29'') prevDate = Some ''2024-02-29''
   \<and> Option.bind (prevDate ''2024-02-29'') nextDate = Some ''2024-02-29''"
proof -
  have a: "(2024, 2, 29) \<noteq> (9999, 12, 31 :: int)" "(2024, 2, 29) \<noteq> (0, 1, 1 :: int)"
    by simp_all
  note t = next_and_previous_day [OF calendar_examples(1)]
  have 1: "nextDate (iso_date (2024, 2, 29)) = Some (iso_date (next_day (2024, 2, 29)))"
    using t a by blast
  have 2: "prevDate (iso_date (2024, 2, 29)) = Some (iso_date (prev_day (2024, 2, 29)))"
    using t a by blast
  have 3: "Option.bind (nextDate (iso_date (2024, 2, 29))) prevDate
      = Some (iso_date (2024, 2, 29))"
    using t by blast
  have 4: "Option.bind (prevDate (iso_date (2024, 2, 29))) nextDate
      = Some (iso_date (2024, 2, 29))"
    using t a by blast
  from 1 2 3 4 calendar_examples(1) iso_examples(1) show ?thesis
    unfolding calendar_examples(2,3) iso_examples by blast
qed

end
